theory Spec2Isabelle
  imports Complex_Main
begin

section \<open>The level generator of PeggleRogue (src/src/levelGenerator.js)\<close>

text \<open>
  The class \<^verbatim>\<open>LevelGenerator\<close> is embedded shallowly. JavaScript numbers are modelled as
  mathematical reals (finite, no rounding); values the source keeps integral (level numbers,
  colour indices, loop counters) are \<^typ>\<open>int\<close> or \<^typ>\<open>nat\<close>. Two routines are modelled
  closer to the doubles of the program: the threshold calculator with the rounding of every
  operation to binary64, and the loop bound of the spiral pattern with the infinities, the
  signed zeros and \<^verbatim>\<open>NaN\<close> that decide whether its loop ends.

  \<^verbatim>\<open>Math.random()\<close> is an oracle: the sequence of values it returns is a function
  \<open>rnd :: nat \<Rightarrow> real\<close>, and every routine that draws random numbers takes the position
  \<open>k\<close> of the next draw and returns the position after its last draw. A property holds
  ``for every outcome of the randomness'' when it holds for every \<open>rnd\<close> (with values in
  \<open>[0, 1)\<close> where that matters).
\<close>

subsection \<open>Data model\<close>

text \<open>The constructor stores three parameters; the remaining fields are constants.\<close>

record config =
  pegRadius :: real
  canvasWidth :: real
  canvasHeight :: real

definition minPegSpacing :: real where
  "minPegSpacing = 50"

definition maxPatterns :: int where
  "maxPatterns = 4"

definition horizontalMargin :: real where
  "horizontalMargin = 100"

definition minPegCountPerLevel :: int where
  "minPegCountPerLevel = 35"

definition pegIncreasePerLevel :: int where
  "pegIncreasePerLevel = 5"

definition maxPegCount :: int where
  "maxPegCount = 120"

text \<open>\<^verbatim>\<open>colorProgression\<close>: pairs (level, colors), in the order of the source.\<close>

definition colorProgression :: "(int \<times> int) list" where
  "colorProgression = [(1, 4), (3, 6), (11, 8)]"

text \<open>
  A peg \<^verbatim>\<open>{ x, y, colorIndex }\<close>. The fields \<^verbatim>\<open>x\<close> and \<^verbatim>\<open>y\<close> are named
  \<open>peg_x\<close> and \<open>peg_y\<close> here.
\<close>

record peg =
  peg_x :: real
  peg_y :: real
  colorIndex :: int

type_synonym rng = "nat \<Rightarrow> real"

subsection \<open>Level parameters\<close>

text \<open>
  \<^verbatim>\<open>getAvailableColors\<close> (lines 78-91): the loop over \<^verbatim>\<open>colorProgression\<close> keeps the
  colours of the last entry whose level is reached and stops at the first entry that is not.
\<close>

fun colorScan :: "int \<Rightarrow> (int \<times> int) list \<Rightarrow> int \<Rightarrow> int" where
  "colorScan levelNumber [] availableColors = availableColors"
| "colorScan levelNumber ((lv, colors) # rest) availableColors =
     (if levelNumber \<ge> lv then colorScan levelNumber rest colors else availableColors)"

definition getAvailableColors :: "int \<Rightarrow> int" where
  "getAvailableColors levelNumber = colorScan levelNumber colorProgression 4"

text \<open>\<^verbatim>\<open>getMinimumPegCount\<close> (lines 96-101).\<close>

definition getMinimumPegCount :: "int \<Rightarrow> int" where
  "getMinimumPegCount levelNumber =
     min (minPegCountPerLevel + (levelNumber - 1) * pegIncreasePerLevel) maxPegCount"

text \<open>
  The spacing computed at the start of \<^verbatim>\<open>generateLevel\<close> (lines 116-119):
  \<^verbatim>\<open>Math.max(this.minPegSpacing - levelNumber * 1.8, this.pegRadius * 2.3)\<close>.
\<close>

definition levelPegSpacing :: "config \<Rightarrow> int \<Rightarrow> real" where
  "levelPegSpacing cfg levelNumber =
     max (minPegSpacing - of_int levelNumber * 1.8) (pegRadius cfg * 2.3)"

subsection \<open>Double-precision arithmetic\<close>

text \<open>
  JavaScript numbers are IEEE-754 binary64. Where a claim depends on the last bits of a
  result, the arithmetic is modelled with its rounding: \<open>fl x\<close> is the double nearest to the
  real number \<open>x\<close>, ties going to the even significand (53 bits; the spacing of the doubles
  around \<open>x\<close> is \<open>2 powi ulpExponent x\<close>, and \<open>2 powi (- 1074)\<close> in the subnormal range). Every
  arithmetic operator returns the rounded exact result, and a decimal literal denotes the
  double nearest to it. Overflow to \<^verbatim>\<open>Infinity\<close> is not part of \<open>fl\<close>: the threshold
  calculator, the only code modelled with it, never leaves the range \<open>[-1, 1]\<close> by more than
  a level number.
\<close>

definition roundEven :: "real \<Rightarrow> int" where
  "roundEven x =
     (let f = \<lfloor>x\<rfloor>
      in if x - of_int f < 1 / 2 then f
         else if 1 / 2 < x - of_int f then f + 1
         else if even f then f else f + 1)"

definition ulpExponent :: "real \<Rightarrow> int" where
  "ulpExponent x = max (\<lfloor>log 2 \<bar>x\<bar>\<rfloor> - 52) (- 1074)"

definition fl :: "real \<Rightarrow> real" where
  "fl x = (if x = 0 then 0
           else of_int (roundEven (x / 2 powi ulpExponent x)) * 2 powi ulpExponent x)"

definition dAdd :: "real \<Rightarrow> real \<Rightarrow> real" where
  "dAdd a b = fl (a + b)"

definition dSub :: "real \<Rightarrow> real \<Rightarrow> real" where
  "dSub a b = fl (a - b)"

definition dMul :: "real \<Rightarrow> real \<Rightarrow> real" where
  "dMul a b = fl (a * b)"

definition dDiv :: "real \<Rightarrow> real \<Rightarrow> real" where
  "dDiv a b = fl (a / b)"

subsection \<open>Threshold calculator\<close>

text \<open>
  \<^verbatim>\<open>getColorThresholds\<close> (lines 2009-2061), in double arithmetic. \<open>scaledThreshold\<close> is the
  local variable of that name: the base threshold before the per-colour variation. The
  level number is an integer-valued double.
\<close>

definition scaledThreshold :: "int \<Rightarrow> real" where
  "scaledThreshold levelNumber =
     (let n = fl (of_int levelNumber)
      in if n \<le> 5 then dAdd (fl 0.25) (dMul (dDiv (dSub n 1) 4) (fl 0.15))
         else if n \<le> 10 then dAdd (fl 0.40) (dMul (dDiv (dSub n 6) 4) (fl 0.15))
         else if n \<le> 15 then dAdd (fl 0.55) (dMul (dDiv (dSub n 11) 4) (fl 0.15))
         else min (fl 0.80) (dAdd (fl 0.70) (dMul (dDiv (dSub n 16) 10) (fl 0.10))))"

text \<open>
  One iteration of the loop over the available colours. The random variation is drawn only
  when \<^verbatim>\<open>levelNumber > 3\<close>.
\<close>

definition thresholdStep ::
  "rng \<Rightarrow> int \<Rightarrow> int \<Rightarrow> nat \<Rightarrow> real list \<times> nat \<Rightarrow> real list \<times> nat" where
  "thresholdStep rnd levelNumber availableColors i = (\<lambda>(thresholds, k).
     let fixedVariation =
           (if i = 0 then fl 0.05 else if int i = availableColors - 1 then - fl 0.03 else 0);
         randomVariation = dSub (dMul (rnd k) (fl 0.06)) (fl 0.03);
         colorVariation =
           (if levelNumber > 3 then dAdd fixedVariation randomVariation else 0);
         k' = (if levelNumber > 3 then k + 1 else k)
     in (thresholds[i := min (fl 0.85)
                           (max (fl 0.2) (dAdd (scaledThreshold levelNumber) colorVariation))],
         k'))"

definition getColorThresholds :: "rng \<Rightarrow> nat \<Rightarrow> int \<Rightarrow> real list \<times> nat" where
  "getColorThresholds rnd k levelNumber =
     (let availableColors = getAvailableColors levelNumber
      in fold (thresholdStep rnd levelNumber availableColors)
           [0..<nat availableColors] (replicate 8 0, k))"

subsection \<open>JavaScript arithmetic\<close>

text \<open>
  The remainder operator \<^verbatim>\<open>%\<close> takes the sign of the dividend, on integers (\<open>jsRem\<close>) and
  on fractional numbers (\<open>jsFmod\<close>); the bitwise operators work on the operands wrapped to
  signed 32 bits (\<open>toInt32\<close>); \<^verbatim>\<open>Math.atan2(y, x)\<close> is the angle of the point \<open>(x, y)\<close> in
  \<open>(-\<pi>, \<pi>]\<close>.
\<close>

unbundle bit_operations_syntax

definition jsRem :: "int \<Rightarrow> int \<Rightarrow> int" where
  "jsRem a b = sgn a * (\<bar>a\<bar> mod \<bar>b\<bar>)"

definition jsTrunc :: "real \<Rightarrow> int" where
  "jsTrunc v = (if 0 \<le> v then \<lfloor>v\<rfloor> else \<lceil>v\<rceil>)"

definition jsFmod :: "real \<Rightarrow> real \<Rightarrow> real" where
  "jsFmod a b = a - b * of_int (jsTrunc (a / b))"

definition toInt32 :: "int \<Rightarrow> int" where
  "toInt32 n = (n + 2 ^ 31) mod 2 ^ 32 - 2 ^ 31"

definition atan2 :: "real \<Rightarrow> real \<Rightarrow> real" where
  "atan2 dy dx =
     (if 0 < dx then arctan (dy / dx)
      else if dx < 0 then (if 0 \<le> dy then arctan (dy / dx) + pi else arctan (dy / dx) - pi)
      else if 0 < dy then pi / 2
      else if dy < 0 then - (pi / 2)
      else 0)"

subsection \<open>Geometry utilities\<close>

text \<open>
  The distance test that \<^verbatim>\<open>removePegOverlaps\<close>, \<^verbatim>\<open>createFillerPegs\<close> and
  \<^verbatim>\<open>createRandomPattern\<close> all write inline:
  \<^verbatim>\<open>Math.sqrt(dx * dx + dy * dy) < minDistance\<close> for some peg of the list (the loop breaks at
  the first such peg).
\<close>

definition pegDistance :: "peg \<Rightarrow> real \<Rightarrow> real \<Rightarrow> real" where
  "pegDistance p px py =
     sqrt ((peg_x p - px) * (peg_x p - px) + (peg_y p - py) * (peg_y p - py))"

definition tooClose :: "peg list \<Rightarrow> real \<Rightarrow> real \<Rightarrow> real \<Rightarrow> bool" where
  "tooClose pegs px py minDistance = list_ex (\<lambda>p. pegDistance p px py < minDistance) pegs"

text \<open>\<^verbatim>\<open>removePegOverlaps\<close> (lines 1091-1114): \<open>result\<close> is the array built so far.\<close>

fun overlapLoop :: "real \<Rightarrow> peg list \<Rightarrow> peg list \<Rightarrow> peg list" where
  "overlapLoop minDistance result [] = result"
| "overlapLoop minDistance result (p # ps) =
     (if tooClose result (peg_x p) (peg_y p) minDistance
      then overlapLoop minDistance result ps
      else overlapLoop minDistance (result @ [p]) ps)"

definition removePegOverlaps :: "peg list \<Rightarrow> real \<Rightarrow> peg list" where
  "removePegOverlaps pegs minDistance = overlapLoop minDistance [] pegs"

text \<open>\<^verbatim>\<open>removeEdgePegs\<close> (lines 1119-1129).\<close>

definition insideEdges :: "config \<Rightarrow> real \<Rightarrow> peg \<Rightarrow> bool" where
  "insideEdges cfg minEdgeDistance p \<longleftrightarrow>
     peg_x p \<ge> horizontalMargin + minEdgeDistance \<and>
     peg_x p \<le> canvasWidth cfg - horizontalMargin - minEdgeDistance \<and>
     peg_y p \<ge> minEdgeDistance \<and>
     peg_y p \<le> canvasHeight cfg - minEdgeDistance"

definition removeEdgePegs :: "config \<Rightarrow> peg list \<Rightarrow> real \<Rightarrow> peg list" where
  "removeEdgePegs cfg pegs minEdgeDistance = filter (insideEdges cfg minEdgeDistance) pegs"

subsection \<open>Colour counters\<close>

text \<open>
  \<^verbatim>\<open>Array(8).fill(0)\<close> indexed by a colour index. Indices 0 to 7 hold numbers; any other
  index reads \<^verbatim>\<open>undefined\<close>, and \<^verbatim>\<open>++\<close> or \<^verbatim>\<open>--\<close> on it stores \<^verbatim>\<open>NaN\<close>: both are
  \<open>None\<close> here, and a comparison with \<open>None\<close> is false.
\<close>

type_synonym counts = "int \<Rightarrow> int option"

definition zeroCounts :: counts where
  "zeroCounts = (\<lambda>i. if 0 \<le> i \<and> i < 8 then Some 0 else None)"

definition incr :: "counts \<Rightarrow> int \<Rightarrow> counts" where
  "incr c i = c(i := map_option (\<lambda>n. n + 1) (c i))"

definition decr :: "counts \<Rightarrow> int \<Rightarrow> counts" where
  "decr c i = c(i := map_option (\<lambda>n. n - 1) (c i))"

definition countLt :: "int option \<Rightarrow> int option \<Rightarrow> bool" where
  "countLt a b = (case a of None \<Rightarrow> False
                  | Some m \<Rightarrow> (case b of None \<Rightarrow> False | Some n \<Rightarrow> m < n))"

text \<open>
  The counting loop of \<^verbatim>\<open>balanceColors\<close> (lines 285-290) and \<^verbatim>\<open>createFillerPegs\<close>
  (lines 753-765): only pegs with \<^verbatim>\<open>colorIndex < availableColors\<close> are counted.
\<close>

definition countBelow :: "int \<Rightarrow> peg list \<Rightarrow> counts \<Rightarrow> counts" where
  "countBelow availableColors pegs c =
     fold (\<lambda>p c. if colorIndex p < availableColors then incr c (colorIndex p) else c) pegs c"

text \<open>The search for the colour with the lowest count (lines 297-302 and 768-773).\<close>

definition lowestColor :: "int \<Rightarrow> counts \<Rightarrow> int" where
  "lowestColor availableColors c =
     fold (\<lambda>i minColorIndex. if countLt (c i) (c minColorIndex) then i else minColorIndex)
       [1..availableColors - 1] 0"

subsection \<open>Grid pattern and the level-1 layout\<close>

text \<open>
  \<^verbatim>\<open>createGridPattern\<close> (lines 1544-1566). \<open>cur\<close> is the field
  \<^verbatim>\<open>this.currentLevelNumber\<close>, which the pattern reads as
  \<^verbatim>\<open>this.currentLevelNumber || 1\<close>. A cell draws one random number for the density test and,
  if it is kept, one for the colour.
\<close>

definition gridCell ::
  "rng \<Rightarrow> real \<Rightarrow> real \<Rightarrow> real \<Rightarrow> real \<Rightarrow> int \<Rightarrow> nat \<Rightarrow> nat \<Rightarrow> peg list \<times> nat
    \<Rightarrow> peg list \<times> nat" where
  "gridCell rnd startX startY pegSpacing density availableColors row col = (\<lambda>(pegs, k).
     if rnd k > density then (pegs, k + 1)
     else (pegs @ [\<lparr>peg_x = startX + real col * pegSpacing,
                     peg_y = startY + real row * pegSpacing,
                     colorIndex = \<lfloor>rnd (k + 1) * of_int availableColors\<rfloor>\<rparr>], k + 2))"

definition createGridPattern ::
  "rng \<Rightarrow> nat \<Rightarrow> int \<Rightarrow> real \<Rightarrow> real \<Rightarrow> int \<Rightarrow> int \<Rightarrow> real \<Rightarrow> real \<Rightarrow> peg list \<times> nat" where
  "createGridPattern rnd k cur startX startY columns rows pegSpacing density =
     (let availableColors = getAvailableColors (if cur = 0 then 1 else cur)
      in fold (\<lambda>row. fold (gridCell rnd startX startY pegSpacing density availableColors row)
                            [0..<nat columns])
           [0..<nat rows] ([], k))"

text \<open>\<^verbatim>\<open>generateSimpleLevel\<close> (lines 168-187).\<close>

definition generateSimpleLevel ::
  "config \<Rightarrow> rng \<Rightarrow> nat \<Rightarrow> int \<Rightarrow> real \<Rightarrow> peg list \<times> nat" where
  "generateSimpleLevel cfg rnd k levelNumber pegSpacing =
     (let centerX = canvasWidth cfg / 2;
          playableWidth = canvasWidth cfg - horizontalMargin * 2;
          gridCols = \<lfloor>playableWidth / pegSpacing\<rfloor>;
          gridRows = 6;
          actualGridWidth = of_int gridCols * pegSpacing;
          centeredGridStartX = centerX - actualGridWidth / 2;
          density = 0.8
      in createGridPattern rnd k levelNumber centeredGridStartX 180 gridCols gridRows
           pegSpacing density)"

subsection \<open>Minimum peg count\<close>

text \<open>
  \<^verbatim>\<open>createFillerPegs\<close> (lines 707-785). The loop
  \<^verbatim>\<open>while (pegs.length < count && attempts < maxAttempts)\<close> increments \<^verbatim>\<open>attempts\<close> in
  every iteration; the recursion is on the number of attempts left.
\<close>

fun fillerLoop ::
  "rng \<Rightarrow> real \<Rightarrow> real \<Rightarrow> real \<Rightarrow> real \<Rightarrow> real \<Rightarrow> int \<Rightarrow> peg list \<Rightarrow> int \<Rightarrow> nat \<Rightarrow> peg list \<Rightarrow> nat
    \<Rightarrow> peg list \<times> nat" where
  "fillerLoop rnd minX minY maxX maxY minDistance count existingPegs availableColors 0 pegs k =
     (pegs, k)"
| "fillerLoop rnd minX minY maxX maxY minDistance count existingPegs availableColors
     (Suc attemptsLeft) pegs k =
     (if int (length pegs) < count then
        (let px = minX + rnd k * (maxX - minX);
             py = minY + rnd (k + 1) * (maxY - minY)
         in if tooClose existingPegs px py minDistance \<or> tooClose pegs px py minDistance
            then fillerLoop rnd minX minY maxX maxY minDistance count existingPegs
                   availableColors attemptsLeft pegs (k + 2)
            else
              (let colorCounts =
                     countBelow availableColors pegs
                       (countBelow availableColors existingPegs zeroCounts);
                   minColorIndex = lowestColor availableColors colorCounts;
                   useLowest = (rnd (k + 2) < 0.7);
                   newColor = (if useLowest then minColorIndex
                               else \<lfloor>rnd (k + 3) * of_int availableColors\<rfloor>);
                   k' = (if useLowest then k + 3 else k + 4)
               in fillerLoop rnd minX minY maxX maxY minDistance count existingPegs
                    availableColors attemptsLeft
                    (pegs @ [\<lparr>peg_x = px, peg_y = py, colorIndex = newColor\<rparr>]) k'))
      else (pegs, k))"

definition createFillerPegs ::
  "rng \<Rightarrow> nat \<Rightarrow> real \<Rightarrow> real \<Rightarrow> real \<Rightarrow> real \<Rightarrow> real \<Rightarrow> int \<Rightarrow> peg list \<Rightarrow> int
    \<Rightarrow> peg list \<times> nat" where
  "createFillerPegs rnd k minX minY maxX maxY minDistance count existingPegs availableColors =
     (let maxAttempts = count * 20
      in fillerLoop rnd minX minY maxX maxY minDistance count existingPegs availableColors
           (nat maxAttempts) [] k)"

text \<open>
  \<^verbatim>\<open>ensureMinimumPegs\<close> (lines 657-702). The recursive call has no bound of its own, so the
  function is partial: \<open>None\<close> means that the call never returns. The call stack of the
  model has no limit.
\<close>

partial_function (option) ensureMinimumPegs ::
  "config \<Rightarrow> rng \<Rightarrow> nat \<Rightarrow> peg list \<Rightarrow> int \<Rightarrow> real \<Rightarrow> int \<Rightarrow> int \<Rightarrow> (peg list \<times> nat) option"
  where
  "ensureMinimumPegs cfg rnd k pegs minCount pegSpacing levelNumber availableColors =
     (if int (length pegs) \<ge> minCount then Some (pegs, k)
      else
        (let playAreaTop = 120;
             playAreaBottom = canvasHeight cfg - 80;
             pegsToAdd = minCount - int (length pegs);
             additional = createFillerPegs rnd k horizontalMargin playAreaTop
                            (canvasWidth cfg - horizontalMargin) playAreaBottom
                            (pegSpacing * 1.2) pegsToAdd pegs availableColors;
             result = pegs @ fst additional;
             filteredPegs = removeEdgePegs cfg (removePegOverlaps result (pegSpacing * 0.8))
                              (pegRadius cfg * 2)
         in if int (length filteredPegs) < minCount \<and> pegSpacing > pegRadius cfg * 3
            then ensureMinimumPegs cfg rnd (snd additional) filteredPegs minCount
                   (pegSpacing * 0.9) levelNumber availableColors
            else Some (filteredPegs, snd additional)))"

text \<open>
  The number of times a call of \<^verbatim>\<open>ensureMinimumPegs\<close> calls itself (line 698) before it
  returns: the same recursion, counting the retries instead of passing the pegs on. Each
  retry runs with the spacing of the call before reduced by 10%.
\<close>

partial_function (option) topUpShrinks ::
  "config \<Rightarrow> rng \<Rightarrow> nat \<Rightarrow> peg list \<Rightarrow> int \<Rightarrow> real \<Rightarrow> int \<Rightarrow> int \<Rightarrow> nat option"
  where
  "topUpShrinks cfg rnd k pegs minCount pegSpacing levelNumber availableColors =
     (if int (length pegs) \<ge> minCount then Some 0
      else
        (let playAreaTop = 120;
             playAreaBottom = canvasHeight cfg - 80;
             pegsToAdd = minCount - int (length pegs);
             additional = createFillerPegs rnd k horizontalMargin playAreaTop
                            (canvasWidth cfg - horizontalMargin) playAreaBottom
                            (pegSpacing * 1.2) pegsToAdd pegs availableColors;
             result = pegs @ fst additional;
             filteredPegs = removeEdgePegs cfg (removePegOverlaps result (pegSpacing * 0.8))
                              (pegRadius cfg * 2)
         in if int (length filteredPegs) < minCount \<and> pegSpacing > pegRadius cfg * 3
            then Option.bind
                   (topUpShrinks cfg rnd (snd additional) filteredPegs minCount
                      (pegSpacing * 0.9) levelNumber availableColors)
                   (\<lambda>n. Some (Suc n))
            else Some 0))"

subsection \<open>Colour balancer\<close>

text \<open>
  The gradient functions (lines 555-652). Each maps a peg, the number of available colours
  and the level to a colour index.
\<close>

definition horizontalGradient :: "config \<Rightarrow> peg \<Rightarrow> int \<Rightarrow> int \<Rightarrow> int" where
  "horizontalGradient cfg p availableColors levelNumber =
     (let normalizedX = (peg_x p - horizontalMargin) / (canvasWidth cfg - 2 * horizontalMargin)
      in \<lfloor>normalizedX * of_int availableColors\<rfloor>)"

definition verticalGradient :: "config \<Rightarrow> peg \<Rightarrow> int \<Rightarrow> int \<Rightarrow> int" where
  "verticalGradient cfg p availableColors levelNumber =
     (let normalizedY = peg_y p / canvasHeight cfg
      in \<lfloor>normalizedY * of_int availableColors\<rfloor>)"

definition radialGradient :: "config \<Rightarrow> peg \<Rightarrow> int \<Rightarrow> int \<Rightarrow> int" where
  "radialGradient cfg p availableColors levelNumber =
     (let centerX = canvasWidth cfg / 2;
          centerY = canvasHeight cfg / 2;
          dx = peg_x p - centerX;
          dy = peg_y p - centerY;
          distance = sqrt (dx * dx + dy * dy);
          maxDistance = sqrt (centerX * centerX + centerY * centerY);
          normalizedDistance = distance / maxDistance
      in \<lfloor>normalizedDistance * of_int availableColors\<rfloor>)"

definition stripeGradient :: "config \<Rightarrow> peg \<Rightarrow> int \<Rightarrow> int \<Rightarrow> int" where
  "stripeGradient cfg p availableColors levelNumber =
     (let stripeSize = 40 + jsRem levelNumber 3 * 15;
          stripeIndex = \<lfloor>peg_x p / of_int stripeSize\<rfloor>
      in jsRem stripeIndex availableColors)"

definition simpleNoise :: "real \<Rightarrow> real \<Rightarrow> real" where
  "simpleNoise nx ny =
     (let n = sin (nx * 12.9898 + ny * 78.233) * 43758.5453
      in n - of_int \<lfloor>n\<rfloor>)"

definition noiseGradient :: "config \<Rightarrow> peg \<Rightarrow> int \<Rightarrow> int \<Rightarrow> int" where
  "noiseGradient cfg p availableColors levelNumber =
     (let noiseScale = 0.01 + of_int levelNumber * 0.002;
          noiseValue = simpleNoise (peg_x p * noiseScale) (peg_y p * noiseScale)
      in \<lfloor>noiseValue * of_int availableColors\<rfloor>)"

definition spiralGradient :: "config \<Rightarrow> peg \<Rightarrow> int \<Rightarrow> int \<Rightarrow> int" where
  "spiralGradient cfg p availableColors levelNumber =
     (let centerX = canvasWidth cfg / 2;
          centerY = canvasHeight cfg / 2;
          dx = peg_x p - centerX;
          dy = peg_y p - centerY;
          angle = atan2 dy dx;
          distance = sqrt (dx * dx + dy * dy);
          spiralValue = (angle + distance * 0.01 * of_int levelNumber) / (pi * 2)
      in \<lfloor>jsFmod spiralValue 1 * of_int availableColors\<rfloor>)"

definition hashFunction :: "int \<Rightarrow> int \<Rightarrow> int \<Rightarrow> int" where
  "hashFunction hx hy seed =
     \<bar>jsRem (toInt32 (hx * 3733 + hy * 2053) XOR toInt32 (seed * 4057)) 967\<bar>"

definition patternGradient :: "config \<Rightarrow> peg \<Rightarrow> int \<Rightarrow> int \<Rightarrow> int" where
  "patternGradient cfg p availableColors levelNumber =
     (let cellSize = 100 - levelNumber * 2;
          cellX = \<lfloor>peg_x p / of_int cellSize\<rfloor>;
          cellY = \<lfloor>peg_y p / of_int cellSize\<rfloor>;
          hash = hashFunction cellX cellY levelNumber
      in jsRem hash availableColors)"

text \<open>
  The array \<^verbatim>\<open>gradientTypes\<close> of \<^verbatim>\<open>applyColorGradient\<close>, by index. The index is a
  remainder modulo \<open>availableTypes \<le> 7\<close> of a non-negative number, so 0 to 6 are the only
  indices read when the level is positive.
\<close>

definition gradientTypes :: "int \<Rightarrow> config \<Rightarrow> peg \<Rightarrow> int \<Rightarrow> int \<Rightarrow> int" where
  "gradientTypes gradientType =
     (if gradientType = 0 then horizontalGradient
      else if gradientType = 1 then verticalGradient
      else if gradientType = 2 then radialGradient
      else if gradientType = 3 then stripeGradient
      else if gradientType = 4 then noiseGradient
      else if gradientType = 5 then spiralGradient
      else patternGradient)"

text \<open>
  \<^verbatim>\<open>blendColorGradients\<close> (lines 508-550). The blend factor is drawn once; blend type 2
  draws one more random number for every peg. \<open>blendType\<close> is \<^verbatim>\<open>levelNumber % 3\<close>, which is
  0, 1 or 2 for the levels that reach this function.
\<close>

definition blendPick ::
  "config \<Rightarrow> rng \<Rightarrow> nat \<Rightarrow> real \<Rightarrow> int \<Rightarrow> peg \<Rightarrow> int \<Rightarrow> int \<Rightarrow> int \<times> nat" where
  "blendPick cfg rnd k blendFactor levelNumber p color1 color2 =
     (let blendType = jsRem levelNumber 3
      in if blendType = 0 then
           ((if jsRem (\<lfloor>peg_x p / 50\<rfloor> + \<lfloor>peg_y p / 50\<rfloor>) 2 = 0 then color1 else color2), k)
         else if blendType = 1 then
           (let distanceFromCenter =
                  sqrt ((peg_x p - canvasWidth cfg / 2)\<^sup>2 + (peg_y p - canvasHeight cfg / 2)\<^sup>2);
                normalizedDistance =
                  distanceFromCenter / sqrt ((canvasWidth cfg / 2)\<^sup>2 + (canvasHeight cfg / 2)\<^sup>2)
            in ((if normalizedDistance < blendFactor then color1 else color2), k))
         else ((if rnd k < blendFactor then color1 else color2), k + 1))"

fun blendLoop ::
  "config \<Rightarrow> rng \<Rightarrow> real \<Rightarrow> (config \<Rightarrow> peg \<Rightarrow> int \<Rightarrow> int \<Rightarrow> int)
    \<Rightarrow> (config \<Rightarrow> peg \<Rightarrow> int \<Rightarrow> int \<Rightarrow> int) \<Rightarrow> int \<Rightarrow> int \<Rightarrow> peg list \<Rightarrow> nat
    \<Rightarrow> peg list \<times> nat" where
  "blendLoop cfg rnd blendFactor gradientFunc1 gradientFunc2 availableColors levelNumber [] k =
     ([], k)"
| "blendLoop cfg rnd blendFactor gradientFunc1 gradientFunc2 availableColors levelNumber
     (p # ps) k =
     (let color1 = gradientFunc1 cfg p availableColors levelNumber;
          color2 = gradientFunc2 cfg p availableColors levelNumber;
          picked = blendPick cfg rnd k blendFactor levelNumber p color1 color2;
          rest = blendLoop cfg rnd blendFactor gradientFunc1 gradientFunc2 availableColors
                   levelNumber ps (snd picked)
      in (p\<lparr>colorIndex := fst picked\<rparr> # fst rest, snd rest))"

definition blendColorGradients ::
  "config \<Rightarrow> rng \<Rightarrow> nat \<Rightarrow> peg list \<Rightarrow> (config \<Rightarrow> peg \<Rightarrow> int \<Rightarrow> int \<Rightarrow> int)
    \<Rightarrow> (config \<Rightarrow> peg \<Rightarrow> int \<Rightarrow> int \<Rightarrow> int) \<Rightarrow> int \<Rightarrow> int \<Rightarrow> peg list \<times> nat" where
  "blendColorGradients cfg rnd k pegs gradientFunc1 gradientFunc2 availableColors levelNumber =
     (let blendFactor = 0.5 + (rnd k * 0.4 - 0.2)
      in blendLoop cfg rnd blendFactor gradientFunc1 gradientFunc2 availableColors levelNumber
           pegs (k + 1))"

text \<open>
  \<^verbatim>\<open>applyColorGradient\<close> (lines 461-503). \<^verbatim>\<open>Math.random() < 0.4\<close> is evaluated only when
  \<^verbatim>\<open>levelNumber > 6\<close>.
\<close>

definition applyColorGradient ::
  "config \<Rightarrow> rng \<Rightarrow> nat \<Rightarrow> peg list \<Rightarrow> int \<Rightarrow> int \<Rightarrow> peg list \<times> nat" where
  "applyColorGradient cfg rnd k pegs availableColors levelNumber =
     (let availableTypes = min 7 (2 + levelNumber div 2);
          gradientType = jsRem (levelNumber + \<lfloor>rnd k * 3\<rfloor>) availableTypes;
          useBlendedGradient = (levelNumber > 6 \<and> rnd (k + 1) < 0.4);
          k1 = (if levelNumber > 6 then k + 2 else k + 1)
      in if useBlendedGradient then
           (let secondType =
                  jsRem (gradientType + 1 + \<lfloor>rnd k1 * of_int (availableTypes - 1)\<rfloor>)
                    availableTypes
            in blendColorGradients cfg rnd (k1 + 1) pegs (gradientTypes gradientType)
                 (gradientTypes secondType) availableColors levelNumber)
         else
           (map (\<lambda>p. p\<lparr>colorIndex :=
                          gradientTypes gradientType cfg p availableColors levelNumber\<rparr>) pegs,
            k1))"

text \<open>
  \<^verbatim>\<open>ensureMinimumColorCounts\<close> (lines 330-456). First the counting loop, which also
  reduces an index \<^verbatim>\<open>>= availableColors\<close> modulo the number of colours.
\<close>

definition wrapColor :: "int \<Rightarrow> peg \<Rightarrow> peg" where
  "wrapColor availableColors p =
     (if colorIndex p \<ge> availableColors
      then p\<lparr>colorIndex := jsRem (colorIndex p) availableColors\<rparr> else p)"

definition countAll :: "peg list \<Rightarrow> counts" where
  "countAll pegs = fold (\<lambda>p c. incr c (colorIndex p)) pegs zeroCounts"

text \<open>
  The three conversion loops (lines 389-399, 403-416, 421-433) differ only in which colour
  indices they convert: \<open>eligible\<close>. A loop stops when \<open>converted\<close> reaches \<open>needed\<close>.
\<close>

fun convertLoop ::
  "(int \<Rightarrow> bool) \<Rightarrow> int \<Rightarrow> int \<Rightarrow> peg list \<Rightarrow> counts \<Rightarrow> int \<Rightarrow> peg list \<times> counts \<times> int"
  where
  "convertLoop eligible color needed [] c converted = ([], c, converted)"
| "convertLoop eligible color needed (p # ps) c converted =
     (if converted < needed then
        (if eligible (colorIndex p) then
           (let r = convertLoop eligible color needed ps
                      (incr (decr c (colorIndex p)) color) (converted + 1)
            in (p\<lparr>colorIndex := color\<rparr> # fst r, snd r))
         else
           (let r = convertLoop eligible color needed ps c converted
            in (p # fst r, snd r)))
      else (p # ps, c, converted))"

definition minPerColor :: "int \<Rightarrow> int" where
  "minPerColor levelNumber = max 3 \<lfloor>5 - of_int levelNumber * (0.1::real)\<rfloor>"

definition otherColor :: "int \<Rightarrow> int \<Rightarrow> int \<Rightarrow> bool" where
  "otherColor levelNumber color ci \<longleftrightarrow> ci \<noteq> color \<and> \<not> (levelNumber = 3 \<and> ci = 5)"

definition balanceColor ::
  "int \<Rightarrow> int \<Rightarrow> int \<Rightarrow> peg list \<times> counts \<Rightarrow> peg list \<times> counts" where
  "balanceColor availableColors levelNumber color = (\<lambda>(balancedPegs, colorCounts).
     if color \<ge> availableColors then (balancedPegs, colorCounts)
     else
       (let extraMinForCyan = (if levelNumber = 3 then 2 else 0);
            adjustedMinimum =
              (if color = 5 \<and> levelNumber = 3 then minPerColor levelNumber + extraMinForCyan
               else minPerColor levelNumber)
        in if countLt (colorCounts color) (Some adjustedMinimum) then
             (let needed = adjustedMinimum - the (colorCounts color);
                  excessColors =
                    filter (\<lambda>c. \<not> (levelNumber = 3 \<and> c = 5) \<and> c \<noteq> color \<and>
                                 countLt (Some (minPerColor levelNumber + 2)) (colorCounts c))
                      [0..availableColors - 1]
              in if excessColors \<noteq> [] then
                   (let r1 = convertLoop (\<lambda>ci. ci \<in> set excessColors) color needed
                               balancedPegs colorCounts 0
                    in if snd (snd r1) < needed then
                         (let r2 = convertLoop (otherColor levelNumber color) color needed
                                     (fst r1) (fst (snd r1)) (snd (snd r1))
                          in (fst r2, fst (snd r2)))
                       else (fst r1, fst (snd r1)))
                 else
                   (let r = convertLoop (otherColor levelNumber color) color needed
                              balancedPegs colorCounts 0
                    in (fst r, fst (snd r))))
           else (balancedPegs, colorCounts)))"

definition colorOrder :: "int \<Rightarrow> int \<Rightarrow> int list" where
  "colorOrder availableColors levelNumber =
     (if levelNumber = 3 then [5, 0, 1, 2, 3, 4] else [0..availableColors - 1])"

definition ensureMinimumColorCounts :: "peg list \<Rightarrow> int \<Rightarrow> int \<Rightarrow> peg list" where
  "ensureMinimumColorCounts pegs availableColors levelNumber =
     (let wrapped = map (wrapColor availableColors) pegs;
          colorCounts = countAll wrapped;
          balancedPegs =
            fst (fold (balanceColor availableColors levelNumber)
                   (colorOrder availableColors levelNumber) (wrapped, colorCounts))
      in map (wrapColor availableColors) balancedPegs)"

text \<open>
  \<^verbatim>\<open>balanceColors\<close> (lines 283-324): the clamp stage, the gradient stage for
  \<^verbatim>\<open>levelNumber > 3\<close>, and the minimum per colour.
\<close>

fun clampLoop :: "int \<Rightarrow> counts \<Rightarrow> peg list \<Rightarrow> peg list" where
  "clampLoop availableColors colorCounts [] = []"
| "clampLoop availableColors colorCounts (p # ps) =
     (if colorIndex p \<ge> availableColors then
        (let minColorIndex = lowestColor availableColors colorCounts;
             colorCounts' = incr (decr colorCounts (colorIndex p)) minColorIndex
         in p\<lparr>colorIndex := minColorIndex\<rparr> # clampLoop availableColors colorCounts' ps)
      else p # clampLoop availableColors colorCounts ps)"

definition balanceColors ::
  "config \<Rightarrow> rng \<Rightarrow> nat \<Rightarrow> peg list \<Rightarrow> int \<Rightarrow> int \<Rightarrow> peg list \<times> nat" where
  "balanceColors cfg rnd k pegs availableColors levelNumber =
     (let colorCounts = countBelow availableColors pegs zeroCounts;
          balanced = clampLoop availableColors colorCounts pegs;
          colorPatterned =
            (if levelNumber > 3 then applyColorGradient cfg rnd k balanced availableColors levelNumber
             else (balanced, k))
      in (ensureMinimumColorCounts (fst colorPatterned) availableColors levelNumber,
          snd colorPatterned))"

subsection \<open>Level assembler\<close>

text \<open>
  \<^verbatim>\<open>generateLevel\<close> (lines 108-163). Level 1 is the grid of \<^verbatim>\<open>generateSimpleLevel\<close>. For the
  other levels, the pegs that the pattern library and the section composer place are a
  parameter of the model: \<open>placed\<close> is the array returned by \<^verbatim>\<open>generateIntermediateLevel\<close>
  at level 2, and from level 3 on the array \<^verbatim>\<open>pegs\<close> of \<^verbatim>\<open>generateProceduralLevel\<close> as it
  stands at line 858, after the pattern, random and challenge pegs have been pushed and
  before the two filters run; \<open>drawn\<close> is the number of random draws made up to that point.
  What \<^verbatim>\<open>generateLevel\<close> does with these pegs is modelled in full, so a property proved for
  every \<open>placed\<close> holds for whatever the patterns produce.
\<close>

definition generateProceduralLevel ::
  "config \<Rightarrow> peg list \<times> nat \<Rightarrow> real \<Rightarrow> peg list \<times> nat" where
  "generateProceduralLevel cfg placed pegSpacing =
     (let filteredPegs = removePegOverlaps (fst placed) (pegSpacing * 0.8)
      in (removeEdgePegs cfg filteredPegs (pegRadius cfg * 2), snd placed))"

text \<open>The dispatch on the level number (lines 137-152); the draws start at position 0.\<close>

definition levelPegs :: "config \<Rightarrow> rng \<Rightarrow> peg list \<Rightarrow> nat \<Rightarrow> int \<Rightarrow> peg list \<times> nat" where
  "levelPegs cfg rnd placed drawn levelNumber =
     (let pegSpacing = levelPegSpacing cfg levelNumber
      in if levelNumber = 1 then generateSimpleLevel cfg rnd 0 levelNumber pegSpacing
         else if levelNumber = 2 then (placed, drawn)
         else generateProceduralLevel cfg (placed, drawn) pegSpacing)"

definition generateLevel ::
  "config \<Rightarrow> rng \<Rightarrow> peg list \<Rightarrow> nat \<Rightarrow> int \<Rightarrow> peg list option" where
  "generateLevel cfg rnd placed drawn levelNumber =
     (let pegSpacing = levelPegSpacing cfg levelNumber;
          minPegCount = getMinimumPegCount levelNumber;
          availableColors = getAvailableColors levelNumber;
          pegs = levelPegs cfg rnd placed drawn levelNumber;
          enough =
            (if int (length (fst pegs)) < minPegCount
             then ensureMinimumPegs cfg rnd (snd pegs) (fst pegs) minPegCount pegSpacing
                    levelNumber availableColors
             else Some pegs)
      in case enough of
           None \<Rightarrow> None
         | Some r \<Rightarrow> Some (fst (balanceColors cfg rnd (snd r) (fst r) availableColors levelNumber)))"

subsection \<open>Pattern selector\<close>

text \<open>
  The keys of \<^verbatim>\<open>this.patterns\<close> in insertion order, and \<^verbatim>\<open>this.patternDifficulty\<close>. The
  selector reads a rating as \<^verbatim>\<open>this.patternDifficulty[pattern] || 5\<close>: a rated name gives its
  rating, and a name that is no property of the object gives 5. \<^verbatim>\<open>patternDifficulty\<close> is an
  object literal, so the property names it inherits from \<^verbatim>\<open>Object.prototype\<close>
  (\<open>inheritedNames\<close>) read as a function or an object, which is neither replaced by 5 nor a
  number: \<open>difficultyOf\<close> is \<open>None\<close> for them, every comparison with it is false and every
  arithmetic result is \<^verbatim>\<open>NaN\<close>.
\<close>

definition patternNames :: "string list" where
  "patternNames = [''grid'', ''checkerboard'', ''diamond'', ''spiral'', ''tunnel'', ''wave'',
     ''vortex'', ''concentric'', ''zigzag'', ''hourglass'', ''maze'', ''random'', ''clustered'']"

definition patternDifficulty :: "(string \<times> int) list" where
  "patternDifficulty = [(''grid'', 1), (''checkerboard'', 2), (''random'', 3), (''diamond'', 4),
     (''wave'', 5), (''clustered'', 6), (''tunnel'', 7), (''spiral'', 8), (''vortex'', 10),
     (''concentric'', 6), (''zigzag'', 7), (''hourglass'', 8), (''maze'', 9)]"

definition inheritedNames :: "string list" where
  "inheritedNames = [''constructor'', ''hasOwnProperty'', ''isPrototypeOf'',
     ''propertyIsEnumerable'', ''toLocaleString'', ''toString'', ''valueOf'',
     ''__defineGetter__'', ''__defineSetter__'', ''__lookupGetter__'', ''__lookupSetter__'',
     ''__proto__'']"

definition difficultyOf :: "string \<Rightarrow> int option" where
  "difficultyOf pattern =
     (case map_of patternDifficulty pattern of
        None \<Rightarrow> if pattern \<in> set inheritedNames then None else Some 5
      | Some d \<Rightarrow> Some (if d = 0 then 5 else d))"

text \<open>\<^verbatim>\<open>selectPatternsByDifficulty\<close> (lines 1533-1539).\<close>

definition selectPatternsByDifficulty :: "int \<Rightarrow> string list" where
  "selectPatternsByDifficulty difficultyFactor =
     filter (\<lambda>pattern. case difficultyOf pattern of
                          None \<Rightarrow> False
                        | Some patternDiff \<Rightarrow> patternDiff \<le> difficultyFactor + 2)
       patternNames"

text \<open>The two level parameters that \<^verbatim>\<open>generateLevel\<close> passes to the selector (lines 113, 122).\<close>

definition difficultyFactor :: "int \<Rightarrow> int" where
  "difficultyFactor levelNumber = min 10 (levelNumber div 2 + 1)"

definition patternCount :: "int \<Rightarrow> int" where
  "patternCount levelNumber = min maxPatterns (1 + levelNumber div 2)"

text \<open>
  \<^verbatim>\<open>selectRandomPatternsForLevel\<close> (lines 1034-1086). The weighted list holds each name
  \<open>weight\<close> times, and not at all when the weight is \<^verbatim>\<open>NaN\<close> (\<open>None\<close>), since \<^verbatim>\<open>i < weight\<close> is
  then false. The selection loop runs \<open>count\<close> times unless the list is empty; it removes the
  chosen name from the list only while \<^verbatim>\<open>selected.length < count - 1\<close>.
\<close>

definition patternWeight :: "int \<Rightarrow> string \<Rightarrow> int option" where
  "patternWeight levelNumber pattern =
     (case difficultyOf pattern of
        None \<Rightarrow> None
      | Some difficulty \<Rightarrow> Some (if levelNumber \<le> 5 then 10 - difficulty else difficulty))"

definition weightedPatterns :: "int \<Rightarrow> string list \<Rightarrow> string list" where
  "weightedPatterns levelNumber availablePatterns =
     concat (map (\<lambda>pattern. case patternWeight levelNumber pattern of
                                None \<Rightarrow> []
                              | Some weight \<Rightarrow> replicate (nat weight) pattern)
               availablePatterns)"

fun selectLoop ::
  "rng \<Rightarrow> int \<Rightarrow> nat \<Rightarrow> string list \<Rightarrow> string list \<Rightarrow> nat \<Rightarrow> string list \<times> nat" where
  "selectLoop rnd count 0 weighted selected k = (selected, k)"
| "selectLoop rnd count (Suc iterationsLeft) weighted selected k =
     (if weighted = [] then (selected, k)
      else
        (let index = nat \<lfloor>rnd k * real (length weighted)\<rfloor>;
             pattern = weighted ! index;
             selected' = selected @ [pattern];
             weighted' = (if int (length selected') < count - 1
                          then filter (\<lambda>q. q \<noteq> pattern) weighted else weighted)
         in selectLoop rnd count iterationsLeft weighted' selected' (k + 1)))"

definition selectRandomPatternsForLevel ::
  "rng \<Rightarrow> nat \<Rightarrow> string list \<Rightarrow> int \<Rightarrow> int \<Rightarrow> string list \<times> nat" where
  "selectRandomPatternsForLevel rnd k availablePatterns count levelNumber =
     selectLoop rnd count (nat count) (weightedPatterns levelNumber availablePatterns) [] k"

subsection \<open>Spiral pattern\<close>

text \<open>
  \<^verbatim>\<open>createSpiralPattern\<close> (lines 1620-1645). The loop bound is
  \<^verbatim>\<open>steps = Math.floor(maxAngle / angleStep)\<close> with \<^verbatim>\<open>angleStep = pegSpacing / radius\<close> and
  \<^verbatim>\<open>maxAngle = turns * 2 * Math.PI\<close>, and whether the loop ends depends on the values that
  double arithmetic has besides the finite ones. \<open>jsNumber\<close> holds them: a finite number (with
  \<open>Finite 0\<close> for \<^verbatim>\<open>+0\<close>), \<^verbatim>\<open>-0\<close>, the two infinities and \<^verbatim>\<open>NaN\<close>. \<open>jsTimes\<close> and \<open>jsDivide\<close>
  are \<^verbatim>\<open>*\<close> and \<^verbatim>\<open>/\<close> with the IEEE-754 rules for these values; \<open>toDouble\<close> takes the exact
  non-zero result of an operation on finite operands into the range of the doubles: it
  overflows to an infinity from \<open>2 ^ 1024 - 2 ^ 970\<close> on and underflows to a zero up to
  \<open>2 powi (- 1075)\<close>. The rounding of a finite result to 53 bits is left out here.
\<close>

datatype jsNumber = Finite real | NegativeZero | PositiveInfinity | NegativeInfinity | NotANumber

definition signBit :: "jsNumber \<Rightarrow> bool" where
  "signBit v =
     (case v of Finite x \<Rightarrow> x < 0 | NegativeZero \<Rightarrow> True | PositiveInfinity \<Rightarrow> False
      | NegativeInfinity \<Rightarrow> True | NotANumber \<Rightarrow> False)"

definition isZero :: "jsNumber \<Rightarrow> bool" where
  "isZero v \<longleftrightarrow> v = Finite 0 \<or> v = NegativeZero"

definition isInfinite :: "jsNumber \<Rightarrow> bool" where
  "isInfinite v \<longleftrightarrow> v = PositiveInfinity \<or> v = NegativeInfinity"

definition finiteValue :: "jsNumber \<Rightarrow> real" where
  "finiteValue v = (case v of Finite x \<Rightarrow> x | _ \<Rightarrow> 0)"

definition signedZero :: "bool \<Rightarrow> jsNumber" where
  "signedZero negative = (if negative then NegativeZero else Finite 0)"

definition signedInfinity :: "bool \<Rightarrow> jsNumber" where
  "signedInfinity negative = (if negative then NegativeInfinity else PositiveInfinity)"

definition toDouble :: "real \<Rightarrow> jsNumber" where
  "toDouble x =
     (if 2 ^ 1024 - 2 ^ 970 \<le> \<bar>x\<bar> then signedInfinity (x < 0)
      else if \<bar>x\<bar> \<le> 1 / 2 ^ 1075 then signedZero (x < 0)
      else Finite x)"

definition jsTimes :: "jsNumber \<Rightarrow> jsNumber \<Rightarrow> jsNumber" where
  "jsTimes a b =
     (if a = NotANumber \<or> b = NotANumber then NotANumber
      else if (isZero a \<and> isInfinite b) \<or> (isInfinite a \<and> isZero b) then NotANumber
      else if isInfinite a \<or> isInfinite b then signedInfinity (signBit a \<noteq> signBit b)
      else if isZero a \<or> isZero b then signedZero (signBit a \<noteq> signBit b)
      else toDouble (finiteValue a * finiteValue b))"

definition jsDivide :: "jsNumber \<Rightarrow> jsNumber \<Rightarrow> jsNumber" where
  "jsDivide a b =
     (if a = NotANumber \<or> b = NotANumber then NotANumber
      else if (isZero a \<and> isZero b) \<or> (isInfinite a \<and> isInfinite b) then NotANumber
      else if isInfinite a \<or> isZero b then signedInfinity (signBit a \<noteq> signBit b)
      else if isZero a \<or> isInfinite b then signedZero (signBit a \<noteq> signBit b)
      else toDouble (finiteValue a / finiteValue b))"

text \<open>
  The loop \<^verbatim>\<open>for (let i = 0; i < steps; i++)\<close> never ends when \<^verbatim>\<open>steps\<close> is \<^verbatim>\<open>Infinity\<close>, and
  neither when \<^verbatim>\<open>steps\<close> exceeds \<open>2 ^ 53\<close>, where \<^verbatim>\<open>i++\<close> stops changing \<^verbatim>\<open>i\<close>. Its body never
  runs when \<^verbatim>\<open>steps\<close> is \<^verbatim>\<open>NaN\<close>, a zero or negative. The length of the list of pegs has no
  limit in the model.
\<close>

datatype loopBound = Bounded int | Unbounded

definition spiralSteps :: "real \<Rightarrow> real \<Rightarrow> real \<Rightarrow> loopBound" where
  "spiralSteps radius turns pegSpacing =
     (let angleStep = jsDivide (Finite pegSpacing) (Finite radius);
          maxAngle = jsTimes (jsTimes (Finite turns) (Finite 2)) (Finite pi);
          steps = jsDivide maxAngle angleStep
      in case steps of
           Finite q \<Rightarrow> if 2 ^ 53 < \<lfloor>q\<rfloor> then Unbounded else Bounded \<lfloor>q\<rfloor>
         | NegativeZero \<Rightarrow> Bounded 0
         | PositiveInfinity \<Rightarrow> Unbounded
         | NegativeInfinity \<Rightarrow> Bounded 0
         | NotANumber \<Rightarrow> Bounded 0)"

definition belowBound :: "int \<Rightarrow> loopBound \<Rightarrow> bool" where
  "belowBound i steps = (case steps of Bounded n \<Rightarrow> i < n | Unbounded \<Rightarrow> True)"

partial_function (option) spiralLoop ::
  "rng \<Rightarrow> real \<Rightarrow> real \<Rightarrow> real \<Rightarrow> real \<Rightarrow> real \<Rightarrow> int \<Rightarrow> loopBound \<Rightarrow> int \<Rightarrow> peg list \<Rightarrow> nat
    \<Rightarrow> (peg list \<times> nat) option" where
  "spiralLoop rnd centerX centerY radius maxAngle angleStep availableColors steps i pegs k =
     (if belowBound i steps then
        (let angle = of_int i * angleStep;
             distance = (radius * angle) / maxAngle
         in if distance \<ge> radius
            then spiralLoop rnd centerX centerY radius maxAngle angleStep availableColors steps
                   (i + 1) pegs k
            else spiralLoop rnd centerX centerY radius maxAngle angleStep availableColors steps
                   (i + 1)
                   (pegs @ [\<lparr>peg_x = centerX + cos angle * distance,
                              peg_y = centerY + sin angle * distance,
                              colorIndex = \<lfloor>rnd k * of_int availableColors\<rfloor>\<rparr>])
                   (k + 1))
      else Some (pegs, k))"

definition createSpiralPattern ::
  "rng \<Rightarrow> nat \<Rightarrow> int \<Rightarrow> real \<Rightarrow> real \<Rightarrow> real \<Rightarrow> real \<Rightarrow> real \<Rightarrow> (peg list \<times> nat) option" where
  "createSpiralPattern rnd k cur centerX centerY radius turns pegSpacing =
     (let angleStep = pegSpacing / radius;
          availableColors = getAvailableColors (if cur = 0 then 1 else cur);
          maxAngle = turns * 2 * pi
      in spiralLoop rnd centerX centerY radius maxAngle angleStep availableColors
           (spiralSteps radius turns pegSpacing) 0 [] k)"

subsection \<open>Notions used in the statements\<close>

text \<open>
  \<open>separated d pegs\<close>: any two pegs at different positions of the list are at Euclidean
  distance at least \<open>d\<close>. \<open>positions\<close>: the coordinates of the pegs, in order.
  \<open>toppedUp\<close>: \<^verbatim>\<open>generateLevel\<close> found fewer pegs than the minimum count and called
  \<^verbatim>\<open>ensureMinimumPegs\<close> (line 155). \<open>levelShrinks\<close>: the number of times the spacing was
  reduced by 10% while \<^verbatim>\<open>generateLevel\<close> ran, which is the number of times
  \<^verbatim>\<open>ensureMinimumPegs\<close> called itself, and 0 when it was not called.
  \<open>colorCount\<close>: the number of pegs of one colour.
\<close>

definition separated :: "real \<Rightarrow> peg list \<Rightarrow> bool" where
  "separated d pegs = sorted_wrt (\<lambda>p q. d \<le> pegDistance p (peg_x q) (peg_y q)) pegs"

definition positions :: "peg list \<Rightarrow> (real \<times> real) list" where
  "positions pegs = map (\<lambda>p. (peg_x p, peg_y p)) pegs"

definition toppedUp :: "config \<Rightarrow> rng \<Rightarrow> peg list \<Rightarrow> nat \<Rightarrow> int \<Rightarrow> bool" where
  "toppedUp cfg rnd placed drawn levelNumber \<longleftrightarrow>
     int (length (fst (levelPegs cfg rnd placed drawn levelNumber)))
       < getMinimumPegCount levelNumber"


text \<open>\<open>zeroOrWithin b v\<close>: the double \<open>v\<close> is a zero or a finite number of magnitude at most \<open>b\<close>.\<close>

definition zeroOrWithin :: "real \<Rightarrow> jsNumber \<Rightarrow> bool" where
  "zeroOrWithin b v =
     (case v of Finite q \<Rightarrow> \<bar>q\<bar> \<le> b | NegativeZero \<Rightarrow> True | PositiveInfinity \<Rightarrow> False
      | NegativeInfinity \<Rightarrow> False | NotANumber \<Rightarrow> False)"

definition colorCount :: "int \<Rightarrow> peg list \<Rightarrow> nat" where
  "colorCount c pegs = length (filter (\<lambda>p. colorIndex p = c) pegs)"

text \<open>
  The counters of a colour-balancing loop agree with the list: every available colour is
  counted as often as it occurs.
\<close>

definition countsMatch :: "int \<Rightarrow> peg list \<Rightarrow> counts \<Rightarrow> bool" where
  "countsMatch availableColors pegs c \<longleftrightarrow>
     (\<forall>col. 0 \<le> col \<and> col < availableColors \<longrightarrow> c col = Some (int (colorCount col pegs)))"

text \<open>The generator as the game constructs it (game.js, lines 9-11 and 87).\<close>

definition gameConfig :: config where
  "gameConfig = \<lparr>pegRadius = 10, canvasWidth = 800, canvasHeight = 650\<rparr>"

text \<open>
  Inputs of the examples below: a generator built with a negative peg radius, and the
  outcome of the randomness in which every draw returns the same value.
\<close>

definition negativeRadiusConfig :: config where
  "negativeRadiusConfig = \<lparr>pegRadius = - 1, canvasWidth = 800, canvasHeight = 650\<rparr>"

definition constantDraws :: "real \<Rightarrow> rng" where
  "constantDraws c = (\<lambda>_. c)"


text \<open>
  An outcome of the randomness for level 1 in which every cell of the grid is filled, the
  first seven pegs get colour 0 and all the others colour 1.
\<close>

definition skewedDraws :: rng where
  "skewedDraws n = (if n < 14 then 1 / 10 else 3 / 10)"

text \<open>
  Pegs handed over by the pattern stage in the level-12 example below: three pegs on the
  line \<open>y = 255\<close> and one peg two pixels above the centre (400, 325) of the game's canvas.
\<close>

definition spiralPlaced :: "peg list" where
  "spiralPlaced =
     [\<lparr>peg_x = 310, peg_y = 255, colorIndex = 0\<rparr>,
      \<lparr>peg_x = 210, peg_y = 255, colorIndex = 0\<rparr>,
      \<lparr>peg_x = 410, peg_y = 255, colorIndex = 0\<rparr>,
      \<lparr>peg_x = 400, peg_y = 323, colorIndex = 0\<rparr>]"

section \<open>Properties\<close>

subsection \<open>Available colours\<close>

lemma getAvailableColors_cases:
  "getAvailableColors levelNumber =
     (if levelNumber < 1 then 4 else if levelNumber < 3 then 4
      else if levelNumber < 11 then 6 else 8)"
  by (simp add: getAvailableColors_def colorProgression_def)

lemma getAvailableColors_bounds:
  "4 \<le> getAvailableColors levelNumber \<and> getAvailableColors levelNumber \<le> 8"
  by (simp add: getAvailableColors_cases)

text \<open>
  C6. \<^verbatim>\<open>getAvailableColors\<close> is the step function: 4 for levels 1 and 2, 6 for levels 3 to
  10, 8 from level 11 on; its result is always 4, 6 or 8.
\<close>

theorem getAvailableColors_step:
  "getAvailableColors 1 = 4 \<and> getAvailableColors 2 = 4
   \<and> getAvailableColors levelNumber =
       (if levelNumber \<le> 2 then 4 else if levelNumber \<le> 10 then 6 else 8)
   \<and> getAvailableColors levelNumber \<in> {4, 6, 8}"
  by (simp add: getAvailableColors_def colorProgression_def)


subsection \<open>Thresholds\<close>

lemma fl_binade:
  assumes "2 powi e \<le> \<bar>x\<bar>" and "\<bar>x\<bar> < 2 powi (e + 1)" and "- 1022 \<le> e"
  shows "fl x = of_int (roundEven (x / 2 powi (e - 52))) * 2 powi (e - 52)"
proof -
  have pos: "0 < \<bar>x\<bar>"
    using assms(1) zero_less_power_int [of "2::real" e] by linarith
  have p: "(2::real) powr real_of_int k = 2 powi k" for k
    by (simp add: powr_real_of_int power_int_def power_one_over [symmetric] inverse_eq_divide)
  have lo: "2 powr real_of_int e \<le> \<bar>x\<bar>"
    using assms(1) by (simp only: p)
  have "2 powr real_of_int (e + 1) = (2::real) powi (e + 1)" by (rule p)
  then have hi: "\<bar>x\<bar> < 2 powr (real_of_int e + 1)"
    using assms(2) by (simp only: of_int_add of_int_1)
  have "\<lfloor>log 2 \<bar>x\<bar>\<rfloor> = e"
    using lo hi by (intro floor_log_eq_powr_iff [THEN iffD2] conjI pos) simp_all
  then have "ulpExponent x = e - 52"
    using assms(3) by (simp add: ulpExponent_def)
  with pos show ?thesis by (simp add: fl_def)
qed

text \<open>The binades of the numbers that the threshold calculator meets.\<close>

lemma fl_sixteenth:
  assumes "1 / 32 \<le> \<bar>x\<bar>" and "\<bar>x\<bar> < 1 / 16"
  shows "fl x = of_int (roundEven (x * 2 ^ 57)) / 2 ^ 57"
  using fl_binade [of "- 5" x] assms by (simp add: power_int_minus field_simps)

lemma fl_eighth:
  assumes "1 / 16 \<le> \<bar>x\<bar>" and "\<bar>x\<bar> < 1 / 8"
  shows "fl x = of_int (roundEven (x * 2 ^ 56)) / 2 ^ 56"
  using fl_binade [of "- 4" x] assms by (simp add: power_int_minus field_simps)

lemma fl_quarter:
  assumes "1 / 8 \<le> \<bar>x\<bar>" and "\<bar>x\<bar> < 1 / 4"
  shows "fl x = of_int (roundEven (x * 2 ^ 55)) / 2 ^ 55"
  using fl_binade [of "- 3" x] assms by (simp add: power_int_minus field_simps)

lemma fl_half:
  assumes "1 / 2 \<le> \<bar>x\<bar>" and "\<bar>x\<bar> < 1"
  shows "fl x = of_int (roundEven (x * 2 ^ 53)) / 2 ^ 53"
  using fl_binade [of "- 1" x] assms by (simp add: power_int_minus field_simps)

lemma fl_one:
  assumes "1 \<le> \<bar>x\<bar>" and "\<bar>x\<bar> < 2"
  shows "fl x = of_int (roundEven (x * 2 ^ 52)) / 2 ^ 52"
  using fl_binade [of 0 x] assms by (simp add: power_int_minus field_simps)

lemma fl_four:
  assumes "4 \<le> \<bar>x\<bar>" and "\<bar>x\<bar> < 8"
  shows "fl x = of_int (roundEven (x * 2 ^ 50)) / 2 ^ 50"
  using fl_binade [of 2 x] assms by (simp add: power_int_minus field_simps)

lemma fl_eight:
  assumes "8 \<le> \<bar>x\<bar>" and "\<bar>x\<bar> < 16"
  shows "fl x = of_int (roundEven (x * 2 ^ 49)) / 2 ^ 49"
  using fl_binade [of 3 x] assms by (simp add: power_int_minus field_simps)

lemma fl_sixteen:
  assumes "16 \<le> \<bar>x\<bar>" and "\<bar>x\<bar> < 32"
  shows "fl x = of_int (roundEven (x * 2 ^ 48)) / 2 ^ 48"
  using fl_binade [of 4 x] assms by (simp add: power_int_minus field_simps)

lemma fl_zero [simp]: "fl 0 = 0"
  by (simp add: fl_def)

lemma literals:
  "fl 0.15 = 5404319552844595 / 2 ^ 55"
  "fl 0.55 = 4953959590107546 / 2 ^ 53"
  "fl 0.70 = 6305039478318694 / 2 ^ 53"
  "fl 0.80 = 7205759403792794 / 2 ^ 53"
  "fl 0.2 = 7205759403792794 / 2 ^ 55"
  "fl 0.85 = 7656119366529843 / 2 ^ 53"
  by (subst fl_quarter fl_half; simp add: roundEven_def Let_def)+

lemma level_values: "fl 15 = 15" "fl 16 = 16" "fl 4 = 4" "fl 1 = 1"
  by (subst fl_eight fl_sixteen fl_four fl_one; simp add: roundEven_def Let_def)+

lemma scaledThreshold_15: "scaledThreshold 15 = 6305039478318695 / 2 ^ 53"
proof -
  have a: "dSub 15 11 = 4" by (simp add: dSub_def level_values)
  have b: "dDiv 4 4 = 1" by (simp add: dDiv_def level_values)
  have c: "dMul 1 (5404319552844595 / 2 ^ 55) = 5404319552844595 / 2 ^ 55"
    unfolding dMul_def by (subst fl_quarter) (simp_all add: roundEven_def Let_def)
  have d: "dAdd (4953959590107546 / 2 ^ 53) (5404319552844595 / 2 ^ 55)
      = 6305039478318695 / 2 ^ 53"
    unfolding dAdd_def by (subst fl_half) (simp_all add: roundEven_def Let_def)
  show ?thesis
    unfolding scaledThreshold_def Let_def of_int_numeral level_values literals a b c d
    by simp
qed

lemma scaledThreshold_16: "scaledThreshold 16 = 6305039478318694 / 2 ^ 53"
proof -
  have a: "dSub 16 16 = 0" by (simp add: dSub_def)
  have b: "dDiv 0 10 = 0" by (simp add: dDiv_def)
  have c: "dMul 0 x = 0" for x by (simp add: dMul_def)
  have d: "dAdd (6305039478318694 / 2 ^ 53) 0 = 6305039478318694 / 2 ^ 53"
    unfolding dAdd_def by (subst fl_half) (simp_all add: roundEven_def Let_def)
  show ?thesis
    unfolding scaledThreshold_def Let_def of_int_numeral level_values literals a b c d
    by simp
qed

text \<open>
  C5 fails between levels 15 and 16. The code computes the base threshold of level 15 as
  \<^verbatim>\<open>0.55 + ((15 - 11) / 4) * 0.15\<close>, and in double arithmetic \<^verbatim>\<open>0.55 + 0.15\<close> is
  \<^verbatim>\<open>0.7000000000000001\<close> (\<open>6305039478318695 / 2 ^ 53\<close>), one unit in the last place above
  the double \<^verbatim>\<open>0.7\<close> (\<open>6305039478318694 / 2 ^ 53\<close>) that level 16 gets from
  \<^verbatim>\<open>Math.min(0.80, 0.70 + 0)\<close>. So the base threshold decreases from level 15 to level 16,
  and level 15 lies above the 70% that the comments at lines 2019-2020 and 2032-2035 give as
  the end of its band.
\<close>

theorem scaledThreshold_decreases:
  "scaledThreshold 15 = 6305039478318695 / 2 ^ 53
   \<and> scaledThreshold 16 = 6305039478318694 / 2 ^ 53
   \<and> scaledThreshold 16 < scaledThreshold 15"
  by (simp add: scaledThreshold_15 scaledThreshold_16)

text \<open>
  The other two parts of C5 hold in double arithmetic as well: the clamp keeps every
  written entry between the doubles \<^verbatim>\<open>0.2\<close> and \<^verbatim>\<open>0.85\<close>, which lie in \<open>[0.20, 0.85]\<close>, and
  the entries from the number of available colours on stay 0.
\<close>

lemma thresholdStep_length:
  "length (fst (thresholdStep rnd l a i s)) = length (fst s)"
  by (cases s) (simp add: thresholdStep_def Let_def)

lemma thresholdStep_other:
  "j \<noteq> i \<Longrightarrow> fst (thresholdStep rnd l a i s) ! j = fst s ! j"
  by (cases s) (simp add: thresholdStep_def Let_def)

lemma clamp_range:
  "(lo::real) \<le> hi \<Longrightarrow> lo \<le> min hi (max lo v) \<and> min hi (max lo v) \<le> hi"
  by (auto simp: min_def max_def)

lemma clamp_literals: "0.2 \<le> fl 0.2" "fl 0.2 \<le> fl 0.85" "fl 0.85 \<le> 0.85"
  unfolding literals by simp_all

lemma thresholdStep_clamped:
  assumes "i < length (fst s)"
  shows "0.2 \<le> fst (thresholdStep rnd l a i s) ! i
    \<and> fst (thresholdStep rnd l a i s) ! i \<le> 0.85"
proof -
  obtain th k where s: "s = (th, k)" by (cases s)
  with assms have i: "i < length th" by simp
  obtain v where "fst (thresholdStep rnd l a i s) = th[i := min (fl 0.85) (max (fl 0.2) v)]"
    unfolding s thresholdStep_def Let_def split_conv fst_conv by blast
  then have "fst (thresholdStep rnd l a i s) ! i = min (fl 0.85) (max (fl 0.2) v)"
    using i by (simp only: nth_list_update_eq)
  with clamp_range [OF clamp_literals(2), of v] clamp_literals(1,3) show ?thesis
    by linarith
qed

lemma threshold_fold:
  "n \<le> length (fst s) \<Longrightarrow>
   length (fst (fold (thresholdStep rnd l a) [0..<n] s)) = length (fst s)
   \<and> (\<forall>c < n. 0.2 \<le> fst (fold (thresholdStep rnd l a) [0..<n] s) ! c
          \<and> fst (fold (thresholdStep rnd l a) [0..<n] s) ! c \<le> 0.85)
   \<and> (\<forall>c \<ge> n. fst (fold (thresholdStep rnd l a) [0..<n] s) ! c = fst s ! c)"
proof (induction n)
  case 0
  then show ?case by simp
next
  case (Suc n)
  let ?t = "fold (thresholdStep rnd l a) [0..<n] s"
  from Suc have ih:
    "length (fst ?t) = length (fst s)"
    "\<forall>c < n. 0.2 \<le> fst ?t ! c \<and> fst ?t ! c \<le> 0.85"
    "\<forall>c \<ge> n. fst ?t ! c = fst s ! c"
    by simp_all
  have step: "fold (thresholdStep rnd l a) [0..<Suc n] s = thresholdStep rnd l a n ?t"
    by simp
  have len: "length (fst (thresholdStep rnd l a n ?t)) = length (fst s)"
    by (simp add: thresholdStep_length ih(1))
  have here: "0.2 \<le> fst (thresholdStep rnd l a n ?t) ! n
      \<and> fst (thresholdStep rnd l a n ?t) ! n \<le> 0.85"
    using Suc.prems ih(1) by (intro thresholdStep_clamped) simp
  have below: "\<forall>c < Suc n. 0.2 \<le> fst (thresholdStep rnd l a n ?t) ! c
      \<and> fst (thresholdStep rnd l a n ?t) ! c \<le> 0.85"
  proof (intro allI impI)
    fix c assume "c < Suc n"
    show "0.2 \<le> fst (thresholdStep rnd l a n ?t) ! c
      \<and> fst (thresholdStep rnd l a n ?t) ! c \<le> 0.85"
    proof (cases "c = n")
      case True
      then show ?thesis using here by simp
    next
      case False
      with \<open>c < Suc n\<close> have "c < n" by simp
      with ih(2) False show ?thesis by (simp add: thresholdStep_other)
    qed
  qed
  have above: "\<forall>c \<ge> Suc n. fst (thresholdStep rnd l a n ?t) ! c = fst s ! c"
    using ih(3) by (simp add: thresholdStep_other)
  show ?case
    unfolding step using len below above by blast
qed

lemma getColorThresholds_range:
  "length (fst (getColorThresholds rnd k levelNumber)) = 8
    \<and> (\<forall>c. c < nat (getAvailableColors levelNumber) \<longrightarrow>
          0.20 \<le> fst (getColorThresholds rnd k levelNumber) ! c
          \<and> fst (getColorThresholds rnd k levelNumber) ! c \<le> 0.85)
    \<and> (\<forall>c. nat (getAvailableColors levelNumber) \<le> c \<and> c < 8 \<longrightarrow>
          fst (getColorThresholds rnd k levelNumber) ! c = 0)"
proof -
  let ?a = "getAvailableColors levelNumber"
  have "?a \<le> 8"
    using getAvailableColors_bounds [of levelNumber] by simp
  then have le: "nat ?a \<le> length (fst (replicate 8 (0::real), k))"
    by simp
  have eq: "getColorThresholds rnd k levelNumber =
      fold (thresholdStep rnd levelNumber ?a) [0..<nat ?a] (replicate 8 0, k)"
    by (simp add: getColorThresholds_def Let_def)
  from threshold_fold [OF le, of rnd levelNumber ?a]
  have "length (fst (getColorThresholds rnd k levelNumber)) = 8"
    and "\<forall>c < nat ?a. 0.2 \<le> fst (getColorThresholds rnd k levelNumber) ! c
          \<and> fst (getColorThresholds rnd k levelNumber) ! c \<le> 0.85"
    and "\<forall>c \<ge> nat ?a. fst (getColorThresholds rnd k levelNumber) ! c
          = replicate 8 (0::real) ! c"
    unfolding eq by simp_all
  then show ?thesis by simp
qed

subsection \<open>Frame: colour balancing keeps the pegs in place\<close>

lemma positions_Cons [simp]:
  "positions (p # ps) = (peg_x p, peg_y p) # positions ps"
  by (simp add: positions_def)

lemma positions_Nil [simp]: "positions [] = []"
  by (simp add: positions_def)

lemma positions_recolor [simp]:
  "positions (map (\<lambda>p. p\<lparr>colorIndex := f p\<rparr>) pegs) = positions pegs"
  by (simp add: positions_def)

lemma positions_wrapColor [simp]:
  "positions (map (wrapColor a) pegs) = positions pegs"
  by (induction pegs) (simp_all add: wrapColor_def)

lemma positions_clampLoop [simp]:
  "positions (clampLoop a c pegs) = positions pegs"
  by (induction pegs arbitrary: c) (simp_all add: Let_def)

lemma positions_blendLoop [simp]:
  "positions (fst (blendLoop cfg rnd bf g1 g2 a l pegs k)) = positions pegs"
  by (induction pegs arbitrary: k) (simp_all add: Let_def)

lemma positions_applyColorGradient [simp]:
  "positions (fst (applyColorGradient cfg rnd k pegs a l)) = positions pegs"
  by (simp add: applyColorGradient_def blendColorGradients_def Let_def)

lemma positions_convertLoop [simp]:
  "positions (fst (convertLoop e color needed pegs c n)) = positions pegs"
  by (induction pegs arbitrary: c n) (simp_all add: Let_def)

lemma positions_balanceColor [simp]:
  "positions (fst (balanceColor a l color s)) = positions (fst s)"
  by (cases s) (simp add: balanceColor_def Let_def)

lemma positions_fold_balanceColor [simp]:
  "positions (fst (fold (balanceColor a l) colors s)) = positions (fst s)"
  by (induction colors arbitrary: s) simp_all

lemma positions_ensureMinimumColorCounts [simp]:
  "positions (ensureMinimumColorCounts pegs a l) = positions pegs"
  by (simp add: ensureMinimumColorCounts_def Let_def)

lemma positions_balanceColors [simp]:
  "positions (fst (balanceColors cfg rnd k pegs a l)) = positions pegs"
  by (simp add: balanceColors_def Let_def)

lemma positions_length: "positions xs = positions ys \<Longrightarrow> length xs = length ys"
  unfolding positions_def by (rule map_eq_imp_length_eq)

lemma positions_nth:
  assumes "positions xs = positions ys" and "i < length ys"
  shows "peg_x (xs ! i) = peg_x (ys ! i) \<and> peg_y (xs ! i) = peg_y (ys ! i)"
proof -
  have len: "length xs = length ys" using assms(1) by (rule positions_length)
  have "positions xs ! i = positions ys ! i" using assms(1) by simp
  then show ?thesis
    using assms(2) len by (simp add: positions_def)
qed

text \<open>
  C10. \<^verbatim>\<open>balanceColors\<close> (clamp stage, gradient stage, minimum per colour) neither adds
  nor removes pegs and moves none: the result has the length of the input, and the peg at
  each index keeps its \<^verbatim>\<open>x\<close> and \<^verbatim>\<open>y\<close>.
\<close>

theorem balanceColors_frame:
  "length (fst (balanceColors cfg rnd k pegs availableColors levelNumber)) = length pegs
   \<and> (\<forall>i. i < length pegs \<longrightarrow>
         peg_x (fst (balanceColors cfg rnd k pegs availableColors levelNumber) ! i) = peg_x (pegs ! i)
         \<and> peg_y (fst (balanceColors cfg rnd k pegs availableColors levelNumber) ! i) = peg_y (pegs ! i))"
  using positions_length [OF positions_balanceColors]
    positions_nth [OF positions_balanceColors]
  by blast


theorem balanceColors_frame_witness:
  "length (fst (balanceColors gameConfig (\<lambda>_. 1 / 2) 0
       [\<lparr>peg_x = 150, peg_y = 200, colorIndex = 7\<rparr>, \<lparr>peg_x = 300, peg_y = 250, colorIndex = 1\<rparr>]
       4 5)) = 2
   \<and> peg_x (fst (balanceColors gameConfig (\<lambda>_. 1 / 2) 0
       [\<lparr>peg_x = 150, peg_y = 200, colorIndex = 7\<rparr>, \<lparr>peg_x = 300, peg_y = 250, colorIndex = 1\<rparr>]
       4 5) ! 1) = 300
   \<and> peg_y (fst (balanceColors gameConfig (\<lambda>_. 1 / 2) 0
       [\<lparr>peg_x = 150, peg_y = 200, colorIndex = 7\<rparr>, \<lparr>peg_x = 300, peg_y = 250, colorIndex = 1\<rparr>]
       4 5) ! 1) = 250"
proof -
  let ?pegs = "[\<lparr>peg_x = 150, peg_y = 200, colorIndex = 7\<rparr>,
                \<lparr>peg_x = 300, peg_y = 250, colorIndex = 1\<rparr>]"
  note f = balanceColors_frame [of gameConfig "\<lambda>_. 1 / 2" 0 ?pegs 4 5]
  have i: "(1::nat) < length ?pegs" by simp
  from f have "length (fst (balanceColors gameConfig (\<lambda>_. 1 / 2) 0 ?pegs 4 5)) = length ?pegs"
    by (rule conjunct1)
  moreover from f i
  have "peg_x (fst (balanceColors gameConfig (\<lambda>_. 1 / 2) 0 ?pegs 4 5) ! 1) = peg_x (?pegs ! 1)
      \<and> peg_y (fst (balanceColors gameConfig (\<lambda>_. 1 / 2) 0 ?pegs 4 5) ! 1) = peg_y (?pegs ! 1)"
    by blast
  ultimately show ?thesis by simp
qed

subsection \<open>The two filters\<close>

lemma removeEdgePegs_inside:
  "p \<in> set (removeEdgePegs cfg pegs m) \<Longrightarrow> insideEdges cfg m p"
  by (simp add: removeEdgePegs_def)

lemma insideEdges_positions:
  "positions xs = positions ys \<Longrightarrow> list_all (insideEdges cfg m) ys
    \<Longrightarrow> list_all (insideEdges cfg m) xs"
proof (induction xs arbitrary: ys)
  case Nil
  then show ?case by simp
next
  case (Cons a xs)
  then obtain b ys' where ys: "ys = b # ys'" by (cases ys) (simp_all add: positions_def)
  with Cons.prems have "peg_x a = peg_x b" "peg_y a = peg_y b" "positions xs = positions ys'"
    by simp_all
  with Cons.IH [of ys'] Cons.prems(2) ys show ?case
    by (simp add: insideEdges_def)
qed

lemma separated_Nil [simp]: "separated d []"
  by (simp add: separated_def)

lemma separated_snoc:
  "separated d (xs @ [p]) \<longleftrightarrow>
     separated d xs \<and> (\<forall>q \<in> set xs. d \<le> pegDistance q (peg_x p) (peg_y p))"
  by (simp add: separated_def sorted_wrt_append)

lemma separated_filter: "separated d xs \<Longrightarrow> separated d (filter P xs)"
  unfolding separated_def by (rule sorted_wrt_filter)

lemma separated_mono: "d' \<le> d \<Longrightarrow> separated d xs \<Longrightarrow> separated d' xs"
  unfolding separated_def by (erule sorted_wrt_mono_rel [rotated]) simp

lemma separated_positions:
  "separated d xs \<longleftrightarrow>
     sorted_wrt (\<lambda>a b. d \<le> sqrt ((fst a - fst b) * (fst a - fst b) + (snd a - snd b) * (snd a - snd b)))
       (positions xs)"
  by (simp add: separated_def positions_def sorted_wrt_map pegDistance_def)

lemma separated_cong_positions:
  "positions xs = positions ys \<Longrightarrow> separated d xs = separated d ys"
  by (simp add: separated_positions)


lemma overlapLoop_separated:
  "separated d result \<Longrightarrow> separated d (overlapLoop d result pegs)"
proof (induction pegs arbitrary: result)
  case Nil
  then show ?case by simp
next
  case (Cons p ps)
  show ?case
  proof (cases "tooClose result (peg_x p) (peg_y p) d")
    case True
    with Cons show ?thesis by simp
  next
    case False
    then have "\<forall>q \<in> set result. d \<le> pegDistance q (peg_x p) (peg_y p)"
      by (auto simp: tooClose_def list_ex_iff not_less)
    with Cons.prems have "separated d (result @ [p])"
      by (simp add: separated_snoc)
    with Cons.IH False show ?thesis by simp
  qed
qed

lemma removePegOverlaps_separated: "separated d (removePegOverlaps pegs d)"
  by (simp add: removePegOverlaps_def overlapLoop_separated)

lemma filtered_separated:
  "separated d (removeEdgePegs cfg (removePegOverlaps pegs d) m)"
  unfolding removeEdgePegs_def by (rule separated_filter) (rule removePegOverlaps_separated)

lemma filtered_inside:
  "list_all (insideEdges cfg m) (removeEdgePegs cfg pegs m)"
  by (simp add: removeEdgePegs_def list_all_iff)

subsection \<open>What \<^verbatim>\<open>ensureMinimumPegs\<close> returns\<close>

lemma ensureMinimumPegs_step:
  assumes "int (length pegs) < minCount"
  shows "ensureMinimumPegs cfg rnd k pegs minCount pegSpacing levelNumber availableColors =
    (let additional = createFillerPegs rnd k horizontalMargin 120
           (canvasWidth cfg - horizontalMargin) (canvasHeight cfg - 80) (pegSpacing * 1.2)
           (minCount - int (length pegs)) pegs availableColors;
         filteredPegs = removeEdgePegs cfg
           (removePegOverlaps (pegs @ fst additional) (pegSpacing * 0.8)) (pegRadius cfg * 2)
     in if int (length filteredPegs) < minCount \<and> pegSpacing > pegRadius cfg * 3
        then ensureMinimumPegs cfg rnd (snd additional) filteredPegs minCount
               (pegSpacing * 0.9) levelNumber availableColors
        else Some (filteredPegs, snd additional))"
  using assms by (subst ensureMinimumPegs.simps) (simp add: Let_def)

lemma topUpShrinks_step:
  assumes "int (length pegs) < minCount"
  shows "topUpShrinks cfg rnd k pegs minCount pegSpacing levelNumber availableColors =
    (let additional = createFillerPegs rnd k horizontalMargin 120
           (canvasWidth cfg - horizontalMargin) (canvasHeight cfg - 80) (pegSpacing * 1.2)
           (minCount - int (length pegs)) pegs availableColors;
         filteredPegs = removeEdgePegs cfg
           (removePegOverlaps (pegs @ fst additional) (pegSpacing * 0.8)) (pegRadius cfg * 2)
     in if int (length filteredPegs) < minCount \<and> pegSpacing > pegRadius cfg * 3
        then Option.bind (topUpShrinks cfg rnd (snd additional) filteredPegs minCount
               (pegSpacing * 0.9) levelNumber availableColors) (\<lambda>n. Some (Suc n))
        else Some 0)"
  using assms by (subst topUpShrinks.simps) (simp add: Let_def)

lemma ensureMinimumPegs_result_aux:
  "ensureMinimumPegs cfg rnd k pegs minCount pegSpacing levelNumber availableColors = Some res
   \<Longrightarrow> int (length pegs) < minCount \<longrightarrow>
     list_all (insideEdges cfg (pegRadius cfg * 2)) (fst res)
     \<and> (\<exists>n. (n = 0 \<or> pegRadius cfg * 3 < pegSpacing * 0.9 ^ (n - 1))
            \<and> separated (pegSpacing * 0.9 ^ n * 0.8) (fst res))"
proof (rule ensureMinimumPegs.raw_induct [where
      P = "\<lambda>cfg rnd k pegs minCount pegSpacing levelNumber availableColors res.
        int (length pegs) < minCount \<longrightarrow>
          list_all (insideEdges cfg (pegRadius cfg * 2)) (fst res)
          \<and> (\<exists>n. (n = 0 \<or> pegRadius cfg * 3 < pegSpacing * 0.9 ^ (n - 1))
                \<and> separated (pegSpacing * 0.9 ^ n * 0.8) (fst res))"], goal_cases)
  case (1 self cfg rnd k pegs minCount pegSpacing levelNumber availableColors res)
  define additional where "additional = createFillerPegs rnd k horizontalMargin 120
      (canvasWidth cfg - horizontalMargin) (canvasHeight cfg - 80) (pegSpacing * 1.2)
      (minCount - int (length pegs)) pegs availableColors"
  define filteredPegs where "filteredPegs =
      removeEdgePegs cfg (removePegOverlaps (pegs @ fst additional) (pegSpacing * 0.8))
        (pegRadius cfg * 2)"
  have inside: "list_all (insideEdges cfg (pegRadius cfg * 2)) filteredPegs"
    unfolding filteredPegs_def by (rule filtered_inside)
  have sep: "separated (pegSpacing * 0.8) filteredPegs"
    unfolding filteredPegs_def by (rule filtered_separated)
  show ?case
  proof (intro impI)
    assume short: "int (length pegs) < minCount"
    show "list_all (insideEdges cfg (pegRadius cfg * 2)) (fst res)
      \<and> (\<exists>n. (n = 0 \<or> pegRadius cfg * 3 < pegSpacing * 0.9 ^ (n - 1))
            \<and> separated (pegSpacing * 0.9 ^ n * 0.8) (fst res))"
    proof (cases "int (length filteredPegs) < minCount \<and> pegSpacing > pegRadius cfg * 3")
      case True
      from "1"(3) short True
      have rec: "self cfg rnd (snd additional) filteredPegs minCount (pegSpacing * 0.9)
          levelNumber availableColors = Some res"
        unfolding Let_def additional_def [symmetric] filteredPegs_def [symmetric]
        by (simp only: not_le [symmetric] if_False if_True simp_thms)
      have "int (length filteredPegs) < minCount" using True by simp
      with "1"(2) [OF rec]
      obtain n where n: "n = 0 \<or> pegRadius cfg * 3 < pegSpacing * 0.9 * 0.9 ^ (n - 1)"
        and s: "separated (pegSpacing * 0.9 * 0.9 ^ n * 0.8) (fst res)"
        and i: "list_all (insideEdges cfg (pegRadius cfg * 2)) (fst res)"
        by blast
      have "Suc n = 0 \<or> pegRadius cfg * 3 < pegSpacing * 0.9 ^ (Suc n - 1)"
      proof (cases n)
        case 0
        with True show ?thesis by simp
      next
        case (Suc m)
        with n show ?thesis by (simp add: mult.assoc)
      qed
      moreover have "separated (pegSpacing * 0.9 ^ Suc n * 0.8) (fst res)"
        using s by (simp add: mult.assoc)
      ultimately show ?thesis using i by blast
    next
      case False
      from "1"(3) short False have "Some (filteredPegs, snd additional) = Some res"
        unfolding Let_def additional_def [symmetric] filteredPegs_def [symmetric]
        by (simp only: not_le [symmetric] if_False if_True simp_thms)
      then have "res = (filteredPegs, snd additional)" by simp
      with inside sep have "list_all (insideEdges cfg (pegRadius cfg * 2)) (fst res)"
        and "separated (pegSpacing * 0.9 ^ 0 * 0.8) (fst res)"
        by simp_all
      then show ?thesis by blast
    qed
  qed
qed

lemma ensureMinimumPegs_result:
  assumes "ensureMinimumPegs cfg rnd k pegs minCount pegSpacing levelNumber availableColors
            = Some res"
    and "int (length pegs) < minCount"
  shows "list_all (insideEdges cfg (pegRadius cfg * 2)) (fst res)"
    and "\<exists>n. (n = 0 \<or> pegRadius cfg * 3 < pegSpacing * 0.9 ^ (n - 1))
            \<and> separated (pegSpacing * 0.9 ^ n * 0.8) (fst res)"
  using ensureMinimumPegs_result_aux [OF assms(1)] assms(2) by blast+

subsection \<open>The pegs \<^verbatim>\<open>generateLevel\<close> returns\<close>

lemma generateLevel_Some:
  assumes "generateLevel cfg rnd placed drawn levelNumber = Some pegs"
  obtains r where
    "(if toppedUp cfg rnd placed drawn levelNumber
      then ensureMinimumPegs cfg rnd (snd (levelPegs cfg rnd placed drawn levelNumber))
             (fst (levelPegs cfg rnd placed drawn levelNumber))
             (getMinimumPegCount levelNumber) (levelPegSpacing cfg levelNumber) levelNumber
             (getAvailableColors levelNumber)
      else Some (levelPegs cfg rnd placed drawn levelNumber)) = Some r"
    and "positions pegs = positions (fst r)"
proof -
  let ?enough = "if toppedUp cfg rnd placed drawn levelNumber
      then ensureMinimumPegs cfg rnd (snd (levelPegs cfg rnd placed drawn levelNumber))
             (fst (levelPegs cfg rnd placed drawn levelNumber))
             (getMinimumPegCount levelNumber) (levelPegSpacing cfg levelNumber) levelNumber
             (getAvailableColors levelNumber)
      else Some (levelPegs cfg rnd placed drawn levelNumber)"
  have eq: "generateLevel cfg rnd placed drawn levelNumber =
      (case ?enough of None \<Rightarrow> None
       | Some r \<Rightarrow> Some (fst (balanceColors cfg rnd (snd r) (fst r)
                               (getAvailableColors levelNumber) levelNumber)))"
    by (simp add: generateLevel_def toppedUp_def Let_def)
  from assms obtain r where r: "?enough = Some r"
    and p: "pegs = fst (balanceColors cfg rnd (snd r) (fst r)
                         (getAvailableColors levelNumber) levelNumber)"
    unfolding eq by (cases ?enough) simp_all
  have "positions pegs = positions (fst r)"
    unfolding p by (rule positions_balanceColors)
  with r show thesis by (rule that)
qed

lemma levelPegs_procedural:
  assumes "levelNumber \<noteq> 1" and "levelNumber \<noteq> 2"
  shows "fst (levelPegs cfg rnd placed drawn levelNumber) =
    removeEdgePegs cfg (removePegOverlaps placed (levelPegSpacing cfg levelNumber * 0.8))
      (pegRadius cfg * 2)"
  using assms by (simp add: levelPegs_def generateProceduralLevel_def Let_def)

lemma generateLevel_filtered:
  assumes gen: "generateLevel cfg rnd placed drawn levelNumber = Some pegs"
    and lev: "3 \<le> levelNumber \<or> toppedUp cfg rnd placed drawn levelNumber"
  shows "list_all (insideEdges cfg (pegRadius cfg * 2)) pegs"
    and "\<exists>n. (n = 0 \<or> toppedUp cfg rnd placed drawn levelNumber
                  \<and> pegRadius cfg * 3 < levelPegSpacing cfg levelNumber * 0.9 ^ (n - 1))
            \<and> separated (levelPegSpacing cfg levelNumber * 0.9 ^ n * 0.8) pegs"
proof -
  from gen obtain r where
    r: "(if toppedUp cfg rnd placed drawn levelNumber
      then ensureMinimumPegs cfg rnd (snd (levelPegs cfg rnd placed drawn levelNumber))
             (fst (levelPegs cfg rnd placed drawn levelNumber))
             (getMinimumPegCount levelNumber) (levelPegSpacing cfg levelNumber) levelNumber
             (getAvailableColors levelNumber)
      else Some (levelPegs cfg rnd placed drawn levelNumber)) = Some r"
    and pos: "positions pegs = positions (fst r)"
    by (rule generateLevel_Some)
  have "list_all (insideEdges cfg (pegRadius cfg * 2)) (fst r)
    \<and> (\<exists>n. (n = 0 \<or> toppedUp cfg rnd placed drawn levelNumber
                  \<and> pegRadius cfg * 3 < levelPegSpacing cfg levelNumber * 0.9 ^ (n - 1))
            \<and> separated (levelPegSpacing cfg levelNumber * 0.9 ^ n * 0.8) (fst r))"
  proof (cases "toppedUp cfg rnd placed drawn levelNumber")
    case True
    with r have e: "ensureMinimumPegs cfg rnd (snd (levelPegs cfg rnd placed drawn levelNumber))
             (fst (levelPegs cfg rnd placed drawn levelNumber))
             (getMinimumPegCount levelNumber) (levelPegSpacing cfg levelNumber) levelNumber
             (getAvailableColors levelNumber) = Some r"
      by simp
    from True have short: "int (length (fst (levelPegs cfg rnd placed drawn levelNumber)))
        < getMinimumPegCount levelNumber"
      by (simp add: toppedUp_def)
    from ensureMinimumPegs_result [OF e short] True show ?thesis by blast
  next
    case False
    with lev have l: "levelNumber \<noteq> 1" "levelNumber \<noteq> 2" by simp_all
    from False r have "r = levelPegs cfg rnd placed drawn levelNumber" by simp
    then have f: "fst r = removeEdgePegs cfg
        (removePegOverlaps placed (levelPegSpacing cfg levelNumber * 0.8)) (pegRadius cfg * 2)"
      using levelPegs_procedural [OF l] by simp
    have "list_all (insideEdges cfg (pegRadius cfg * 2)) (fst r)"
      unfolding f by (rule filtered_inside)
    moreover have "separated (levelPegSpacing cfg levelNumber * 0.9 ^ 0 * 0.8) (fst r)"
      unfolding f using filtered_separated by simp
    ultimately show ?thesis by blast
  qed
  then show "list_all (insideEdges cfg (pegRadius cfg * 2)) pegs"
    and "\<exists>n. (n = 0 \<or> toppedUp cfg rnd placed drawn levelNumber
                  \<and> pegRadius cfg * 3 < levelPegSpacing cfg levelNumber * 0.9 ^ (n - 1))
            \<and> separated (levelPegSpacing cfg levelNumber * 0.9 ^ n * 0.8) pegs"
    using insideEdges_positions [OF pos] separated_cong_positions [OF pos] by auto
qed

subsection \<open>Termination of \<^verbatim>\<open>ensureMinimumPegs\<close>\<close>

lemma ensureMinimumPegs_enough:
  "minCount \<le> int (length pegs) \<Longrightarrow>
   ensureMinimumPegs cfg rnd k pegs minCount pegSpacing levelNumber availableColors
     = Some (pegs, k)"
  by (subst ensureMinimumPegs.simps) simp

lemma ensureMinimumPegs_terminates_within:
  "pegSpacing * 0.9 ^ n \<le> pegRadius cfg * 3 \<Longrightarrow>
   ensureMinimumPegs cfg rnd k pegs minCount pegSpacing levelNumber availableColors \<noteq> None"
proof (induction n arbitrary: k pegs pegSpacing)
  case 0
  show ?case
  proof (cases "int (length pegs) < minCount")
    case True
    from 0 show ?thesis
      by (subst ensureMinimumPegs_step [OF True]) (simp add: Let_def)
  next
    case False
    then show ?thesis by (simp add: ensureMinimumPegs_enough)
  qed
next
  case (Suc n)
  show ?case
  proof (cases "int (length pegs) < minCount")
    case True
    from Suc.prems have "pegSpacing * 0.9 * 0.9 ^ n \<le> pegRadius cfg * 3"
      by (simp add: mult.assoc)
    from Suc.IH [OF this] show ?thesis
      by (subst ensureMinimumPegs_step [OF True]) (simp add: Let_def)
  next
    case False
    then show ?thesis by (simp add: ensureMinimumPegs_enough)
  qed
qed

lemma shrinks_below:
  assumes "0 < (r::real)"
  shows "\<exists>n. s * 0.9 ^ n \<le> r"
proof (cases "s \<le> r")
  case True
  then have "s * 0.9 ^ 0 \<le> r" by simp
  then show ?thesis by blast
next
  case False
  with assms have s: "0 < s" by simp
  with assms have "0 < r / s" by simp
  then obtain n where "(0.9::real) ^ n < r / s"
    using real_arch_pow_inv [of "r / s" "0.9"] by auto
  with s have "s * 0.9 ^ n \<le> r"
    by (simp add: pos_less_divide_eq mult.commute)
  then show ?thesis by blast
qed

lemma topUpShrinks_enough:
  "minCount \<le> int (length pegs) \<Longrightarrow>
   topUpShrinks cfg rnd k pegs minCount pegSpacing levelNumber availableColors = Some 0"
  by (subst topUpShrinks.simps) simp

lemma ensureMinimumPegs_depth:
  "pegSpacing * 0.9 ^ n \<le> pegRadius cfg * 3 \<Longrightarrow>
   \<exists>r m. ensureMinimumPegs cfg rnd k pegs minCount pegSpacing levelNumber availableColors
           = Some r
     \<and> topUpShrinks cfg rnd k pegs minCount pegSpacing levelNumber availableColors = Some m
     \<and> m \<le> n"
proof (induction n arbitrary: k pegs pegSpacing)
  case 0
  show ?case
  proof (cases "int (length pegs) < minCount")
    case True
    from 0 show ?thesis
      by (subst ensureMinimumPegs_step [OF True], subst topUpShrinks_step [OF True])
        (simp add: Let_def)
  next
    case False
    then show ?thesis by (simp add: ensureMinimumPegs_enough topUpShrinks_enough)
  qed
next
  case (Suc n)
  show ?case
  proof (cases "int (length pegs) < minCount")
    case True
    define additional where "additional = createFillerPegs rnd k horizontalMargin 120
        (canvasWidth cfg - horizontalMargin) (canvasHeight cfg - 80) (pegSpacing * 1.2)
        (minCount - int (length pegs)) pegs availableColors"
    define filteredPegs where "filteredPegs =
        removeEdgePegs cfg (removePegOverlaps (pegs @ fst additional) (pegSpacing * 0.8))
          (pegRadius cfg * 2)"
    note e = ensureMinimumPegs_step [OF True, of cfg rnd k pegSpacing levelNumber availableColors,
        unfolded Let_def, folded additional_def, folded filteredPegs_def]
    note t = topUpShrinks_step [OF True, of cfg rnd k pegSpacing levelNumber availableColors,
        unfolded Let_def, folded additional_def, folded filteredPegs_def]
    from Suc.prems have "pegSpacing * 0.9 * 0.9 ^ n \<le> pegRadius cfg * 3"
      by (simp add: mult.assoc)
    from Suc.IH [OF this, of "snd additional" filteredPegs]
    obtain r m where rec:
      "ensureMinimumPegs cfg rnd (snd additional) filteredPegs minCount (pegSpacing * 0.9)
         levelNumber availableColors = Some r"
      "topUpShrinks cfg rnd (snd additional) filteredPegs minCount (pegSpacing * 0.9)
         levelNumber availableColors = Some m"
      "m \<le> n"
      by blast
    show ?thesis
    proof (cases "int (length filteredPegs) < minCount \<and> pegSpacing > pegRadius cfg * 3")
      case again: True
      have "ensureMinimumPegs cfg rnd k pegs minCount pegSpacing levelNumber availableColors
          = Some r"
        unfolding e using again rec(1) by (simp only: if_True simp_thms)
      moreover
      have "topUpShrinks cfg rnd k pegs minCount pegSpacing levelNumber availableColors
          = Some (Suc m)"
        unfolding t using again rec(2) by (simp only: if_True Option.bind.simps simp_thms)
      ultimately show ?thesis using rec(3) by simp
    next
      case False
      have "ensureMinimumPegs cfg rnd k pegs minCount pegSpacing levelNumber availableColors
          = Some (filteredPegs, snd additional)"
        unfolding e using False by (simp only: if_False simp_thms)
      moreover
      have "topUpShrinks cfg rnd k pegs minCount pegSpacing levelNumber availableColors
          = Some 0"
        unfolding t using False by (simp only: if_False simp_thms)
      ultimately show ?thesis by simp
    qed
  next
    case False
    then show ?thesis by (simp add: ensureMinimumPegs_enough topUpShrinks_enough)
  qed
qed

text \<open>
  C8 (amended). For a generator with \<open>pegRadius \<ge> 1\<close> and integers \<open>minCount\<close> and
  \<open>availableColors\<close> of at most \<open>1000000\<close>: if \<open>pegSpacing * 0.9 ^ n \<le> pegRadius * 3\<close> for some
  \<open>n \<le> 100\<close>, then \<^verbatim>\<open>ensureMinimumPegs\<close> returns, after at most \<open>n + 1\<close> recursive calls.
  Each recursive call multiplies the spacing by 0.9 and is made only while the spacing
  exceeds \<^verbatim>\<open>pegRadius * 3\<close>. The bounds keep the spacing, the attempt counter of
  \<^verbatim>\<open>createFillerPegs\<close> and the depth of the recursion in the range where the numbers of the
  program behave as the reals and integers of the model do; the \<open>+ 1\<close> leaves room for the
  rounding of the products \<^verbatim>\<open>pegSpacing * 0.9\<close>.
\<close>

theorem ensureMinimumPegs_terminates:
  assumes "1 \<le> pegRadius cfg"
    and "pegSpacing * 0.9 ^ n \<le> pegRadius cfg * 3"
    and "n \<le> 100"
    and "minCount \<le> 1000000"
    and "availableColors \<le> 1000000"
  shows "\<exists>r m. ensureMinimumPegs cfg rnd k pegs minCount pegSpacing levelNumber availableColors
           = Some r
     \<and> topUpShrinks cfg rnd k pegs minCount pegSpacing levelNumber availableColors = Some m
     \<and> m \<le> n + 1"
proof -
  from ensureMinimumPegs_depth [OF assms(2)]
  obtain r m where
    "ensureMinimumPegs cfg rnd k pegs minCount pegSpacing levelNumber availableColors = Some r"
    "topUpShrinks cfg rnd k pegs minCount pegSpacing levelNumber availableColors = Some m"
    "m \<le> n"
    by blast
  then show ?thesis by simp
qed

theorem ensureMinimumPegs_terminates_witness:
  "1 \<le> pegRadius gameConfig
   \<and> 241 / 5 * 0.9 ^ 5 \<le> pegRadius gameConfig * 3
   \<and> (5::nat) \<le> 100
   \<and> (35::int) \<le> 1000000
   \<and> (4::int) \<le> 1000000
   \<and> (\<exists>r m. ensureMinimumPegs gameConfig (constantDraws (1 / 2)) 0 [] 35 (241 / 5) 1 4 = Some r
         \<and> topUpShrinks gameConfig (constantDraws (1 / 2)) 0 [] 35 (241 / 5) 1 4 = Some m
         \<and> m \<le> 5 + 1)"
proof -
  have h: "1 \<le> pegRadius gameConfig" "241 / 5 * 0.9 ^ 5 \<le> pegRadius gameConfig * 3"
    "(5::nat) \<le> 100" "(35::int) \<le> 1000000" "(4::int) \<le> 1000000"
    by (simp_all add: gameConfig_def power_divide)
  from ensureMinimumPegs_terminates [OF h, of "constantDraws (1 / 2)" 0 "[]" 1] h
  show ?thesis by (intro conjI)
qed

subsection \<open>Evaluating the filler loop\<close>

lemma upto_1_3: "[1..(3::int)] = [1, 2, 3]"
  by (simp add: upto.simps)

lemma lowestColor_zero: "lowestColor 4 zeroCounts = 0"
  by (simp add: lowestColor_def upto_1_3 zeroCounts_def countLt_def)

lemma pegDistance_same_y:
  "peg_y p = py \<Longrightarrow> pegDistance p px py = \<bar>peg_x p - px\<bar>"
  by (simp add: pegDistance_def)

lemma pegDistance_ge_dy:
  "d \<le> \<bar>peg_y p - py\<bar> \<Longrightarrow> d \<le> pegDistance p px py"
proof -
  assume a: "d \<le> \<bar>peg_y p - py\<bar>"
  have "\<bar>peg_y p - py\<bar> \<le> sqrt ((peg_x p - px)\<^sup>2 + (peg_y p - py)\<^sup>2)"
    by (rule real_sqrt_ge_abs2)
  with a show ?thesis
    by (simp add: pegDistance_def power2_eq_square)
qed

lemma tooClose_Nil [simp]: "\<not> tooClose [] px py d"
  by (simp add: tooClose_def)

lemma tooClose_Cons:
  "tooClose (p # ps) px py d \<longleftrightarrow> pegDistance p px py < d \<or> tooClose ps px py d"
  by (simp add: tooClose_def)

lemma fillerLoop_reject:
  assumes "\<And>j. j < 2 * n \<Longrightarrow> rnd (k + j) = c"
    and "tooClose existing (minX + c * (maxX - minX)) (minY + c * (maxY - minY)) d
         \<or> tooClose pegs (minX + c * (maxX - minX)) (minY + c * (maxY - minY)) d"
    and "int (length pegs) < count"
  shows "fillerLoop rnd minX minY maxX maxY d count existing a n pegs k = (pegs, k + 2 * n)"
  using assms(1)
proof (induction n arbitrary: k)
  case 0
  then show ?case by simp
next
  case (Suc n)
  have r0: "rnd k = c" using Suc.prems [of 0] by simp
  have r1: "rnd (k + 1) = c" using Suc.prems [of 1] by simp
  have "\<And>j. j < 2 * n \<Longrightarrow> rnd (k + 2 + j) = c"
  proof -
    fix j assume "j < 2 * n"
    then have "j + 2 < 2 * Suc n" by simp
    from Suc.prems [OF this] show "rnd (k + 2 + j) = c" by (simp add: add.commute add.left_commute)
  qed
  from Suc.IH [OF this]
  have "fillerLoop rnd minX minY maxX maxY d count existing a n pegs (k + 2)
      = (pegs, k + 2 + 2 * n)" .
  with assms(2,3) r0 r1 show ?case by (simp add: Let_def)
qed

lemma overlap_single [simp]: "removePegOverlaps [p] d = [p]"
  by (simp add: removePegOverlaps_def)

subsection \<open>A generator with a negative radius never stops topping up\<close>

lemma constantDraws_apply [simp]: "constantDraws c n = c"
  by (simp add: constantDraws_def)

lemma fillerLoop_unfold:
  "0 < n \<Longrightarrow>
   fillerLoop rnd minX minY maxX maxY d count existing a n pegs k =
     (if int (length pegs) < count then
        (let px = minX + rnd k * (maxX - minX);
             py = minY + rnd (k + 1) * (maxY - minY)
         in if tooClose existing px py d \<or> tooClose pegs px py d
            then fillerLoop rnd minX minY maxX maxY d count existing a (n - 1) pegs (k + 2)
            else
              (let colorCounts = countBelow a pegs (countBelow a existing zeroCounts);
                   minColorIndex = lowestColor a colorCounts;
                   useLowest = (rnd (k + 2) < 0.7);
                   newColor = (if useLowest then minColorIndex
                               else \<lfloor>rnd (k + 3) * of_int a\<rfloor>);
                   k' = (if useLowest then k + 3 else k + 4)
               in fillerLoop rnd minX minY maxX maxY d count existing a (n - 1)
                    (pegs @ [\<lparr>peg_x = px, peg_y = py, colorIndex = newColor\<rparr>]) k'))
      else (pegs, k))"
  by (cases n) (simp_all add: Let_def)

lemma filler_zero_empty:
  assumes "0 < d"
  shows "createFillerPegs (constantDraws 0) k 100 120 700 570 d 2 [] 4
    = ([\<lparr>peg_x = 100, peg_y = 120, colorIndex = 0\<rparr>], k + 81)"
proof -
  let ?A = "\<lparr>peg_x = 100, peg_y = 120, colorIndex = 0\<rparr>"
  have rej: "fillerLoop (constantDraws 0) 100 120 700 570 d 2 [] 4 39 [?A] (k + 3)
      = ([?A], k + 3 + 2 * 39)"
    using assms by (intro fillerLoop_reject [where c = 0]) (simp_all add: tooClose_Cons pegDistance_same_y)
  have "fillerLoop (constantDraws 0) 100 120 700 570 d 2 [] 4 40 [] k = ([?A], k + 81)"
    by (subst fillerLoop_unfold) (simp_all add: rej countBelow_def lowestColor_zero Let_def)
  then show ?thesis
    unfolding createFillerPegs_def Let_def by simp
qed

lemma filler_zero_single:
  assumes "0 < d"
  shows "createFillerPegs (constantDraws 0) k 100 120 700 570 d 1
      [\<lparr>peg_x = 100, peg_y = 120, colorIndex = 0\<rparr>] 4 = ([], k + 40)"
proof -
  let ?A = "\<lparr>peg_x = 100, peg_y = 120, colorIndex = 0\<rparr>"
  have "fillerLoop (constantDraws 0) 100 120 700 570 d 1 [?A] 4 20 [] k
      = ([], k + 2 * 20)"
    using assms by (intro fillerLoop_reject [where c = 0]) (simp_all add: tooClose_Cons pegDistance_same_y)
  then show ?thesis
    unfolding createFillerPegs_def Let_def by simp
qed

lemma negative_edges_keep:
  "removeEdgePegs negativeRadiusConfig [\<lparr>peg_x = 100, peg_y = 120, colorIndex = 0\<rparr>]
     (pegRadius negativeRadiusConfig * 2) = [\<lparr>peg_x = 100, peg_y = 120, colorIndex = 0\<rparr>]"
  by (simp add: removeEdgePegs_def insideEdges_def negativeRadiusConfig_def horizontalMargin_def)

lemma negative_radius_loops:
  "ensureMinimumPegs cfg rnd k pegs minCount pegSpacing levelNumber availableColors = Some res
   \<Longrightarrow> \<not> (cfg = negativeRadiusConfig \<and> rnd = constantDraws 0 \<and> minCount = 2
            \<and> availableColors = 4 \<and> 0 < pegSpacing
            \<and> (pegs = [] \<or> pegs = [\<lparr>peg_x = 100, peg_y = 120, colorIndex = 0\<rparr>]))"
proof (rule ensureMinimumPegs.raw_induct [where
      P = "\<lambda>cfg rnd k pegs minCount pegSpacing levelNumber availableColors res.
        \<not> (cfg = negativeRadiusConfig \<and> rnd = constantDraws 0 \<and> minCount = 2
            \<and> availableColors = 4 \<and> 0 < pegSpacing
            \<and> (pegs = [] \<or> pegs = [\<lparr>peg_x = 100, peg_y = 120, colorIndex = 0\<rparr>]))"],
    goal_cases)
  case (1 self cfg rnd k pegs minCount pegSpacing levelNumber availableColors res)
  let ?A = "\<lparr>peg_x = 100, peg_y = 120, colorIndex = 0\<rparr>"
  show ?case
  proof
    assume inv: "cfg = negativeRadiusConfig \<and> rnd = constantDraws 0 \<and> minCount = 2
            \<and> availableColors = 4 \<and> 0 < pegSpacing \<and> (pegs = [] \<or> pegs = [?A])"
    then have pos: "0 < pegSpacing" and pegs: "pegs = [] \<or> pegs = [?A]" by simp_all
    have w: "canvasWidth negativeRadiusConfig = 800" "canvasHeight negativeRadiusConfig = 650"
      "horizontalMargin = 100" "pegRadius negativeRadiusConfig * 3 < pegSpacing"
      using pos by (simp_all add: negativeRadiusConfig_def horizontalMargin_def)
    have d: "0 < pegSpacing * 6 / 5" using pos by simp
    from pegs have "\<exists>k'. self negativeRadiusConfig (constantDraws 0) k' [?A] 2
        (pegSpacing * 0.9) levelNumber 4 = Some res"
    proof
      assume "pegs = []"
      with "1"(3) inv have "self negativeRadiusConfig (constantDraws 0) (k + 81) [?A] 2
          (pegSpacing * 0.9) levelNumber 4 = Some res"
        by (simp add: w filler_zero_empty [OF d] negative_edges_keep)
      then show ?thesis by blast
    next
      assume "pegs = [?A]"
      with "1"(3) inv have "self negativeRadiusConfig (constantDraws 0) (k + 40) [?A] 2
          (pegSpacing * 0.9) levelNumber 4 = Some res"
        by (simp add: w filler_zero_single [OF d] negative_edges_keep)
      then show ?thesis by blast
    qed
    then obtain k' where "self negativeRadiusConfig (constantDraws 0) k' [?A] 2
        (pegSpacing * 0.9) levelNumber 4 = Some res" ..
    from "1"(2) [OF this] pos show False by simp
  qed
qed

text \<open>
  C8 as stated (termination for every input, whatever the generator) fails for a generator
  constructed with \<^verbatim>\<open>pegRadius = -1\<close>: with every random draw equal to 0 only one peg
  can ever be placed, two are wanted, and the spacing stays above \<^verbatim>\<open>pegRadius * 3\<close>
  however often it is multiplied by 0.9.
\<close>

theorem ensureMinimumPegs_negative_radius_diverges:
  "ensureMinimumPegs negativeRadiusConfig (constantDraws 0) 0 [] 2 50 1 4 = None"
proof (cases "ensureMinimumPegs negativeRadiusConfig (constantDraws 0) 0 [] 2 50 1 4")
  case None
  then show ?thesis .
next
  case (Some res)
  from negative_radius_loops [OF Some] show ?thesis by simp
qed

subsection \<open>Evaluating a top-up call of the game's generator\<close>

lemma overlapLoop_id:
  "separated d (result @ pegs) \<Longrightarrow> overlapLoop d result pegs = result @ pegs"
proof (induction pegs arbitrary: result)
  case Nil
  then show ?case by simp
next
  case (Cons p ps)
  from Cons.prems have s: "separated d ((result @ [p]) @ ps)" by simp
  then have "separated d (result @ [p])"
    unfolding separated_def sorted_wrt_append by blast
  then have "\<not> tooClose result (peg_x p) (peg_y p) d"
    by (auto simp: separated_snoc tooClose_def list_ex_iff)
  with Cons.IH [OF s] show ?case by simp
qed

lemma removePegOverlaps_id: "separated d pegs \<Longrightarrow> removePegOverlaps pegs d = pegs"
  using overlapLoop_id [of d "[]" pegs] by (simp add: removePegOverlaps_def)

lemma removeEdgePegs_id:
  "list_all (insideEdges cfg m) pegs \<Longrightarrow> removeEdgePegs cfg pegs m = pegs"
  by (simp add: removeEdgePegs_def list_all_iff)

lemma lowestColor_fold_zero:
  "fold (\<lambda>i m. if countLt (zeroCounts i) (zeroCounts m) then i else m) is 0 = 0"
  by (induction "is") (simp_all add: zeroCounts_def countLt_def)

lemma lowestColor_zeroCounts: "lowestColor a zeroCounts = 0"
  by (simp add: lowestColor_def lowestColor_fold_zero)

lemma fillerLoop_accept_reject:
  assumes pos: "0 < n" and cnt: "1 < count"
    and free: "\<not> tooClose existing (minX + rnd k * (maxX - minX))
                 (minY + rnd (k + 1) * (maxY - minY)) d"
    and low: "rnd (k + 2) < 0.7"
    and draws: "\<And>j. j < 2 * (n - 1) \<Longrightarrow> rnd (k + 3 + j) = c"
    and close: "tooClose (existing @
        [\<lparr>peg_x = minX + rnd k * (maxX - minX), peg_y = minY + rnd (k + 1) * (maxY - minY),
          colorIndex = lowestColor a (countBelow a existing zeroCounts)\<rparr>])
        (minX + c * (maxX - minX)) (minY + c * (maxY - minY)) d"
  shows "fillerLoop rnd minX minY maxX maxY d count existing a n [] k =
    ([\<lparr>peg_x = minX + rnd k * (maxX - minX), peg_y = minY + rnd (k + 1) * (maxY - minY),
       colorIndex = lowestColor a (countBelow a existing zeroCounts)\<rparr>],
     k + 3 + 2 * (n - 1))"
proof -
  let ?new = "\<lparr>peg_x = minX + rnd k * (maxX - minX),
      peg_y = minY + rnd (k + 1) * (maxY - minY),
      colorIndex = lowestColor a (countBelow a existing zeroCounts)\<rparr>"
  have "fillerLoop rnd minX minY maxX maxY d count existing a (n - 1) [?new] (k + 3)
      = ([?new], k + 3 + 2 * (n - 1))"
    using draws close cnt
    by (intro fillerLoop_reject [where c = c]) (auto simp: tooClose_def)
  with free low cnt show ?thesis
    by (subst fillerLoop_unfold [OF pos]) (simp add: Let_def countBelow_def)
qed

lemma topup_rejected:
  assumes draws: "\<And>j. j < 2 * nat ((m - int (length pegs)) * 20) \<Longrightarrow> rnd (k + j) = c"
    and close: "tooClose pegs
        (horizontalMargin + c * (canvasWidth cfg - horizontalMargin - horizontalMargin))
        (120 + c * (canvasHeight cfg - 80 - 120)) (s * 1.2)"
    and short: "int (length pegs) < m"
    and sep: "separated (s * 0.8) pegs"
    and ins: "list_all (insideEdges cfg (pegRadius cfg * 2)) pegs"
  shows "ensureMinimumPegs cfg rnd k pegs m s l a =
    (if pegRadius cfg * 3 < s
     then ensureMinimumPegs cfg rnd (k + 2 * nat ((m - int (length pegs)) * 20)) pegs m
            (s * 0.9) l a
     else Some (pegs, k + 2 * nat ((m - int (length pegs)) * 20)))"
proof -
  let ?n = "nat ((m - int (length pegs)) * 20)"
  have "fillerLoop rnd horizontalMargin 120 (canvasWidth cfg - horizontalMargin)
      (canvasHeight cfg - 80) (s * 1.2) (m - int (length pegs)) pegs a ?n [] k
      = ([], k + 2 * ?n)"
    using draws close short by (intro fillerLoop_reject [where c = c]) simp_all
  then have f: "createFillerPegs rnd k horizontalMargin 120 (canvasWidth cfg - horizontalMargin)
      (canvasHeight cfg - 80) (s * 1.2) (m - int (length pegs)) pegs a = ([], k + 2 * ?n)"
    by (simp add: createFillerPegs_def)
  have g: "removeEdgePegs cfg (removePegOverlaps pegs (s * 0.8)) (pegRadius cfg * 2) = pegs"
    using sep ins by (simp add: removePegOverlaps_id removeEdgePegs_id)
  show ?thesis
    by (subst ensureMinimumPegs_step [OF short])
      (simp only: Let_def f fst_conv snd_conv append_Nil2 g short simp_thms)
qed

lemma topup_accept_reject:
  assumes new: "new = \<lparr>peg_x = horizontalMargin
          + rnd k * (canvasWidth cfg - horizontalMargin - horizontalMargin),
        peg_y = 120 + rnd (k + 1) * (canvasHeight cfg - 80 - 120),
        colorIndex = lowestColor a (countBelow a pegs zeroCounts)\<rparr>"
    and free: "\<not> tooClose pegs (peg_x new) (peg_y new) (s * 1.2)"
    and low: "rnd (k + 2) < 0.7"
    and draws: "\<And>j. j < 2 * (nat ((m - int (length pegs)) * 20) - 1) \<Longrightarrow> rnd (k + 3 + j) = c"
    and close: "tooClose (pegs @ [new])
        (horizontalMargin + c * (canvasWidth cfg - horizontalMargin - horizontalMargin))
        (120 + c * (canvasHeight cfg - 80 - 120)) (s * 1.2)"
    and short: "int (length pegs) + 1 < m"
    and sep: "separated (s * 0.8) (pegs @ [new])"
    and ins: "list_all (insideEdges cfg (pegRadius cfg * 2)) (pegs @ [new])"
  shows "ensureMinimumPegs cfg rnd k pegs m s l a =
    (if pegRadius cfg * 3 < s
     then ensureMinimumPegs cfg rnd (k + 3 + 2 * (nat ((m - int (length pegs)) * 20) - 1))
            (pegs @ [new]) m (s * 0.9) l a
     else Some (pegs @ [new], k + 3 + 2 * (nat ((m - int (length pegs)) * 20) - 1)))"
proof -
  let ?n = "nat ((m - int (length pegs)) * 20)"
  from short have pos: "0 < ?n" and short': "int (length pegs) < m"
    and cnt: "1 < m - int (length pegs)" by simp_all
  have "fillerLoop rnd horizontalMargin 120 (canvasWidth cfg - horizontalMargin)
      (canvasHeight cfg - 80) (s * 1.2) (m - int (length pegs)) pegs a ?n [] k
      = ([new], k + 3 + 2 * (?n - 1))"
    unfolding new using free low draws close unfolding new
    by (intro fillerLoop_accept_reject [OF pos cnt, where c = c]) simp_all
  then have f: "createFillerPegs rnd k horizontalMargin 120 (canvasWidth cfg - horizontalMargin)
      (canvasHeight cfg - 80) (s * 1.2) (m - int (length pegs)) pegs a
      = ([new], k + 3 + 2 * (?n - 1))"
    by (simp add: createFillerPegs_def)
  have g: "removeEdgePegs cfg (removePegOverlaps (pegs @ [new]) (s * 0.8)) (pegRadius cfg * 2)
      = pegs @ [new]"
    using sep ins by (simp add: removePegOverlaps_id removeEdgePegs_id)
  have len: "int (length (pegs @ [new])) < m" using short by simp
  show ?thesis
    by (subst ensureMinimumPegs_step [OF short'])
      (simp only: Let_def f fst_conv snd_conv g len simp_thms)
qed

lemma tooClose_at:
  assumes "list_ex (\<lambda>p. peg_x p = px \<and> peg_y p = py) pegs" and "0 < d"
  shows "tooClose pegs px py d"
proof -
  from assms(1) obtain p where "p \<in> set pegs" "peg_x p = px" "peg_y p = py"
    by (auto simp: list_ex_iff)
  with assms(2) show ?thesis
    by (auto simp: tooClose_def list_ex_iff pegDistance_def intro!: bexI [of _ p])
qed

lemma topup_stuck_within:
  assumes draws: "\<And>j. k0 \<le> j \<Longrightarrow> rnd j = c"
    and centre: "list_ex (\<lambda>p. peg_x p = horizontalMargin
            + c * (canvasWidth cfg - horizontalMargin - horizontalMargin)
          \<and> peg_y p = 120 + c * (canvasHeight cfg - 80 - 120)) pegs"
    and short: "int (length pegs) < m"
    and ins: "list_all (insideEdges cfg (pegRadius cfg * 2)) pegs"
  shows "k0 \<le> k \<Longrightarrow> 0 < s \<Longrightarrow> separated (s * 0.8) pegs \<Longrightarrow> s * 0.9 ^ n \<le> pegRadius cfg * 3
    \<Longrightarrow> \<exists>k'. ensureMinimumPegs cfg rnd k pegs m s l a = Some (pegs, k')"
proof (induction n arbitrary: k s)
  case 0
  have close: "tooClose pegs
        (horizontalMargin + c * (canvasWidth cfg - horizontalMargin - horizontalMargin))
        (120 + c * (canvasHeight cfg - 80 - 120)) (s * 1.2)"
    using centre "0.prems"(2) by (intro tooClose_at) simp_all
  have d: "rnd (k + j) = c" for j using draws [of "k + j"] "0.prems"(1) by simp
  have "ensureMinimumPegs cfg rnd k pegs m s l a =
    (if pegRadius cfg * 3 < s
     then ensureMinimumPegs cfg rnd (k + 2 * nat ((m - int (length pegs)) * 20)) pegs m
            (s * 0.9) l a
     else Some (pegs, k + 2 * nat ((m - int (length pegs)) * 20)))"
    using close short "0.prems"(3) ins by (intro topup_rejected [where c = c]) (simp_all add: d)
  with "0.prems"(4) show ?case by simp
next
  case (Suc n)
  have close: "tooClose pegs
        (horizontalMargin + c * (canvasWidth cfg - horizontalMargin - horizontalMargin))
        (120 + c * (canvasHeight cfg - 80 - 120)) (s * 1.2)"
    using centre Suc.prems(2) by (intro tooClose_at) simp_all
  have d: "rnd (k + j) = c" for j using draws [of "k + j"] Suc.prems(1) by simp
  have step: "ensureMinimumPegs cfg rnd k pegs m s l a =
    (if pegRadius cfg * 3 < s
     then ensureMinimumPegs cfg rnd (k + 2 * nat ((m - int (length pegs)) * 20)) pegs m
            (s * 0.9) l a
     else Some (pegs, k + 2 * nat ((m - int (length pegs)) * 20)))"
    using close short Suc.prems(3) ins by (intro topup_rejected [where c = c]) (simp_all add: d)
  show ?case
  proof (cases "pegRadius cfg * 3 < s")
    case True
    have "k0 \<le> k + 2 * nat ((m - int (length pegs)) * 20)" using Suc.prems(1) by simp
    moreover have "0 < s * 0.9" using Suc.prems(2) by simp
    moreover have "separated (s * 0.9 * 0.8) pegs"
      using Suc.prems(2) by (intro separated_mono [OF _ Suc.prems(3)]) simp
    moreover have "s * 0.9 * 0.9 ^ n \<le> pegRadius cfg * 3"
      using Suc.prems(4) by (simp add: mult.assoc)
    ultimately obtain k' where "ensureMinimumPegs cfg rnd
        (k + 2 * nat ((m - int (length pegs)) * 20)) pegs m (s * 0.9) l a = Some (pegs, k')"
      using Suc.IH by blast
    with step True show ?thesis by simp
  next
    case False
    with step show ?thesis by simp
  qed
qed

lemma topup_stuck:
  assumes "\<And>j. k \<le> j \<Longrightarrow> rnd j = c"
    and "list_ex (\<lambda>p. peg_x p = horizontalMargin
            + c * (canvasWidth cfg - horizontalMargin - horizontalMargin)
          \<and> peg_y p = 120 + c * (canvasHeight cfg - 80 - 120)) pegs"
    and "int (length pegs) < m"
    and "list_all (insideEdges cfg (pegRadius cfg * 2)) pegs"
    and "0 < pegRadius cfg" and "0 < s" and "separated (s * 0.8) pegs"
  shows "\<exists>k'. ensureMinimumPegs cfg rnd k pegs m s l a = Some (pegs, k')"
proof -
  from assms(5) have "0 < pegRadius cfg * 3" by simp
  then obtain n where "s * 0.9 ^ n \<le> pegRadius cfg * 3"
    using shrinks_below by blast
  from topup_stuck_within [OF assms(1-4) le_refl assms(6,7) this] show ?thesis .
qed

subsection \<open>Runs of \<^verbatim>\<open>generateLevel\<close>\<close>

lemma generateLevel_not_topped:
  assumes "\<not> toppedUp cfg rnd placed drawn levelNumber"
  shows "generateLevel cfg rnd placed drawn levelNumber =
    Some (fst (balanceColors cfg rnd (snd (levelPegs cfg rnd placed drawn levelNumber))
                 (fst (levelPegs cfg rnd placed drawn levelNumber))
                 (getAvailableColors levelNumber) levelNumber))"
  using assms by (simp add: generateLevel_def toppedUp_def Let_def)

lemma generateLevel_topped:
  assumes "toppedUp cfg rnd placed drawn levelNumber"
    and "ensureMinimumPegs cfg rnd (snd (levelPegs cfg rnd placed drawn levelNumber))
           (fst (levelPegs cfg rnd placed drawn levelNumber)) (getMinimumPegCount levelNumber)
           (levelPegSpacing cfg levelNumber) levelNumber (getAvailableColors levelNumber)
         = Some r"
  shows "generateLevel cfg rnd placed drawn levelNumber =
    Some (fst (balanceColors cfg rnd (snd r) (fst r) (getAvailableColors levelNumber)
                 levelNumber))"
  using assms by (simp add: generateLevel_def toppedUp_def Let_def)

lemma balanceColors_low_level:
  "levelNumber \<le> 3 \<Longrightarrow>
   fst (balanceColors cfg rnd k pegs a levelNumber) =
     ensureMinimumColorCounts (clampLoop a (countBelow a pegs zeroCounts) pegs) a levelNumber"
  by (simp add: balanceColors_def Let_def)

lemma gameConfig_simps [simp]:
  "pegRadius gameConfig = 10" "canvasWidth gameConfig = 800" "canvasHeight gameConfig = 650"
  by (simp_all add: gameConfig_def)

lemma upto_0_5: "[0..(5::int)] = [0, 1, 2, 3, 4, 5]"
  by (simp add: upto.simps)

lemma upto_0_3: "[0..(3::int)] = [0, 1, 2, 3]"
  by (simp add: upto.simps)

lemma upto_1_5: "[1..(5::int)] = [1, 2, 3, 4, 5]"
  by (simp add: upto.simps)

lemma level3_spacing: "levelPegSpacing gameConfig 3 = 223 / 5"
  by (simp add: levelPegSpacing_def minPegSpacing_def)

lemma level3_pegs:
  "levelPegs gameConfig (constantDraws (1 / 2))
     [\<lparr>peg_x = 250, peg_y = 345, colorIndex = 0\<rparr>] 0 3
   = ([\<lparr>peg_x = 250, peg_y = 345, colorIndex = 0\<rparr>], 0)"
  by (simp add: levelPegs_def generateProceduralLevel_def removeEdgePegs_def insideEdges_def
      horizontalMargin_def Let_def)

lemma level3_topup:
  "\<exists>k'. ensureMinimumPegs gameConfig (constantDraws (1 / 2)) 0
      [\<lparr>peg_x = 250, peg_y = 345, colorIndex = 0\<rparr>] 45 (223 / 5) 3 6
    = Some ([\<lparr>peg_x = 250, peg_y = 345, colorIndex = 0\<rparr>,
             \<lparr>peg_x = 400, peg_y = 345, colorIndex = 1\<rparr>], k')"
proof -
  let ?B = "\<lparr>peg_x = 250, peg_y = 345, colorIndex = 0\<rparr>"
  let ?A = "\<lparr>peg_x = 400, peg_y = 345, colorIndex = 1\<rparr>"
  let ?r = "constantDraws (1 / 2)"
  have first: "ensureMinimumPegs gameConfig ?r 0 [?B] 45 (223 / 5) 3 6 =
      (if pegRadius gameConfig * 3 < 223 / 5
       then ensureMinimumPegs gameConfig ?r (0 + 3 + 2 * (nat ((45 - int (length [?B])) * 20) - 1))
              ([?B] @ [?A]) 45 (223 / 5 * 0.9) 3 6
       else Some ([?B] @ [?A], 0 + 3 + 2 * (nat ((45 - int (length [?B])) * 20) - 1)))"
    by (rule topup_accept_reject [where c = "1 / 2"])
      (simp_all add: horizontalMargin_def lowestColor_def upto_1_5 countBelow_def zeroCounts_def
        incr_def countLt_def tooClose_def pegDistance_same_y separated_def insideEdges_def)
  have "\<exists>k'. ensureMinimumPegs gameConfig ?r (0 + 3 + 2 * (nat ((45 - int (length [?B])) * 20) - 1))
      ([?B] @ [?A]) 45 (223 / 5 * 0.9) 3 6 = Some ([?B] @ [?A], k')"
    by (rule topup_stuck [where c = "1 / 2"])
      (simp_all add: horizontalMargin_def pegDistance_same_y separated_def insideEdges_def)
  with first show ?thesis by simp
qed

lemma level3_colors:
  "ensureMinimumColorCounts
     [\<lparr>peg_x = 250, peg_y = 345, colorIndex = 0\<rparr>, \<lparr>peg_x = 400, peg_y = 345, colorIndex = 1\<rparr>]
     6 3
   = [\<lparr>peg_x = 250, peg_y = 345, colorIndex = 5\<rparr>, \<lparr>peg_x = 400, peg_y = 345, colorIndex = 5\<rparr>]"
  by (simp add: ensureMinimumColorCounts_def wrapColor_def countAll_def colorOrder_def
      balanceColor_def minPerColor_def otherColor_def upto_0_5 zeroCounts_def incr_def decr_def
      countLt_def Let_def)

lemma level3_run:
  "generateLevel gameConfig (constantDraws (1 / 2))
     [\<lparr>peg_x = 250, peg_y = 345, colorIndex = 0\<rparr>] 0 3
   = Some [\<lparr>peg_x = 250, peg_y = 345, colorIndex = 5\<rparr>,
           \<lparr>peg_x = 400, peg_y = 345, colorIndex = 5\<rparr>]"
proof -
  let ?B = "\<lparr>peg_x = 250, peg_y = 345, colorIndex = 0\<rparr>"
  have t: "toppedUp gameConfig (constantDraws (1 / 2)) [?B] 0 3"
    by (simp add: toppedUp_def level3_pegs getMinimumPegCount_def minPegCountPerLevel_def
        pegIncreasePerLevel_def maxPegCount_def)
  from level3_topup obtain k' where
    "ensureMinimumPegs gameConfig (constantDraws (1 / 2))
       (snd (levelPegs gameConfig (constantDraws (1 / 2)) [?B] 0 3))
       (fst (levelPegs gameConfig (constantDraws (1 / 2)) [?B] 0 3)) (getMinimumPegCount 3)
       (levelPegSpacing gameConfig 3) 3 (getAvailableColors 3)
     = Some ([?B, \<lparr>peg_x = 400, peg_y = 345, colorIndex = 1\<rparr>], k')"
    by (auto simp add: level3_pegs level3_spacing getMinimumPegCount_def minPegCountPerLevel_def
        pegIncreasePerLevel_def maxPegCount_def getAvailableColors_cases)
  from generateLevel_topped [OF t this] show ?thesis
    by (simp add: balanceColors_low_level getAvailableColors_cases level3_colors)
qed

subsection \<open>Edge clearance\<close>

text \<open>
  C2 (amended). From level 3 on, and at levels 1 and 2 whenever \<^verbatim>\<open>generateLevel\<close> had to call
  \<^verbatim>\<open>ensureMinimumPegs\<close>, every returned peg keeps \<^verbatim>\<open>pegRadius * 2\<close> away from the
  boundary of the playable area: \<open>x\<close> between \<open>horizontalMargin + pegRadius * 2\<close> and
  \<open>canvasWidth - horizontalMargin - pegRadius * 2\<close>, \<open>y\<close> between \<open>pegRadius * 2\<close> and
  \<open>canvasHeight - pegRadius * 2\<close>. (At levels 1 and 2 without a top-up no edge filter runs.)
\<close>

theorem generateLevel_edge_clearance:
  assumes "1 \<le> levelNumber"
    and "generateLevel cfg rnd placed drawn levelNumber = Some pegs"
    and "3 \<le> levelNumber \<or> toppedUp cfg rnd placed drawn levelNumber"
  shows "\<forall>p \<in> set pegs.
           peg_x p \<ge> horizontalMargin + pegRadius cfg * 2
           \<and> peg_x p \<le> canvasWidth cfg - horizontalMargin - pegRadius cfg * 2
           \<and> peg_y p \<ge> pegRadius cfg * 2
           \<and> peg_y p \<le> canvasHeight cfg - pegRadius cfg * 2"
  using generateLevel_filtered(1) [OF assms(2,3)]
  by (simp add: list_all_iff insideEdges_def)

theorem generateLevel_edge_clearance_witness:
  "(1::int) \<le> 3 \<and> (3::int) \<le> 3
   \<and> generateLevel gameConfig (constantDraws (1 / 2))
        [\<lparr>peg_x = 250, peg_y = 345, colorIndex = 0\<rparr>] 0 3
      = Some [\<lparr>peg_x = 250, peg_y = 345, colorIndex = 5\<rparr>,
              \<lparr>peg_x = 400, peg_y = 345, colorIndex = 5\<rparr>]
   \<and> horizontalMargin + pegRadius gameConfig * 2 \<le> 250
   \<and> 400 \<le> canvasWidth gameConfig - horizontalMargin - pegRadius gameConfig * 2
   \<and> pegRadius gameConfig * 2 \<le> 345
   \<and> 345 \<le> canvasHeight gameConfig - pegRadius gameConfig * 2"
proof -
  have l: "(1::int) \<le> 3" "(3::int) \<le> 3 \<or> toppedUp gameConfig (constantDraws (1 / 2))
      [\<lparr>peg_x = 250, peg_y = 345, colorIndex = 0\<rparr>] 0 3"
    by simp_all
  from generateLevel_edge_clearance [OF l(1) level3_run l(2)] level3_run
  show ?thesis by simp
qed

lemma upt6: "[0..<6] = [0, 1, 2, 3, 4, 5]"
  by (simp add: upt_rec)

lemma upt12: "[0..<12] = [0, 1, 2, 3, 4, 5, 6, 7, 8, 9, 10, 11]"
  by (simp add: upt_rec)

lemma level1_spacing: "levelPegSpacing gameConfig 1 = 241 / 5"
  by (simp add: levelPegSpacing_def minPegSpacing_def)

lemma level1_minimum: "getMinimumPegCount 1 = 35"
  by (simp add: getMinimumPegCount_def minPegCountPerLevel_def pegIncreasePerLevel_def
      maxPegCount_def)

lemma level1_full_grid:
  "length (fst (levelPegs gameConfig (constantDraws (1 / 2)) [] 0 1)) = 72
   \<and> peg_x (fst (levelPegs gameConfig (constantDraws (1 / 2)) [] 0 1) ! 0) = 554 / 5"
  by (simp add: levelPegs_def level1_spacing generateSimpleLevel_def horizontalMargin_def
      createGridPattern_def gridCell_def getAvailableColors_cases upt6 upt12)

text \<open>
  C2 as stated fails at level 1 of the game's generator (800 by 650, radius 10): when every
  draw is 1/2 all 72 cells of the grid are filled, no top-up runs, and the first column of
  the grid stands at \<open>x = 110.8\<close>, left of \<open>horizontalMargin + pegRadius * 2 = 120\<close>.
\<close>

theorem level1_grid_inside_edge_zone:
  "generateLevel gameConfig (constantDraws (1 / 2)) [] 0 1 \<noteq> None
   \<and> length (the (generateLevel gameConfig (constantDraws (1 / 2)) [] 0 1)) = 72
   \<and> peg_x (the (generateLevel gameConfig (constantDraws (1 / 2)) [] 0 1) ! 0) = 554 / 5
   \<and> \<not> (554 / 5 \<ge> horizontalMargin + pegRadius gameConfig * 2)"
proof -
  let ?grid = "levelPegs gameConfig (constantDraws (1 / 2)) [] 0 1"
  have "\<not> toppedUp gameConfig (constantDraws (1 / 2)) [] 0 1"
    by (simp add: toppedUp_def level1_full_grid level1_minimum)
  from generateLevel_not_topped [OF this]
  have g: "generateLevel gameConfig (constantDraws (1 / 2)) [] 0 1 =
      Some (fst (balanceColors gameConfig (constantDraws (1 / 2)) (snd ?grid) (fst ?grid)
                   (getAvailableColors 1) 1))" .
  have "0 < length (fst ?grid)" by (simp add: level1_full_grid)
  with positions_nth [OF positions_balanceColors, of 0 "fst ?grid" gameConfig
      "constantDraws (1 / 2)" "snd ?grid" "getAvailableColors 1" 1]
    positions_length [OF positions_balanceColors, of gameConfig
      "constantDraws (1 / 2)" "snd ?grid" "fst ?grid" "getAvailableColors 1" 1]
  show ?thesis
    unfolding g by (simp add: level1_full_grid horizontalMargin_def)
qed

subsection \<open>Minimum separation\<close>





















subsection \<open>Spiral pattern\<close>

lemma toDouble_ordinary:
  assumes "1 / 2 ^ 1000 \<le> \<bar>x\<bar>" and "\<bar>x\<bar> \<le> 2 ^ 1000"
  shows "toDouble x = Finite x"
proof -
  have "(2::real) ^ 1000 < 2 ^ 1024 - 2 ^ 970" by simp
  with assms(2) have hi: "\<not> 2 ^ 1024 - 2 ^ 970 \<le> \<bar>x\<bar>" by linarith
  have "(1::real) / 2 ^ 1075 < 1 / 2 ^ 1000" by simp
  with assms(1) have lo: "\<not> \<bar>x\<bar> \<le> 1 / 2 ^ 1075" by linarith
  show ?thesis
    unfolding toDouble_def using hi lo by (simp only: if_False)
qed

lemma zeroOrWithin_signedZero: "0 \<le> b \<Longrightarrow> zeroOrWithin b (signedZero negative)"
  by (simp add: zeroOrWithin_def signedZero_def)

lemma toDouble_below:
  assumes "\<bar>x\<bar> \<le> b" and "b \<le> 2 ^ 1000"
  shows "zeroOrWithin b (toDouble x)"
proof -
  have "(2::real) ^ 1000 < 2 ^ 1024 - 2 ^ 970" by simp
  with assms have hi: "\<not> 2 ^ 1024 - 2 ^ 970 \<le> \<bar>x\<bar>" by linarith
  from assms(1) have b: "0 \<le> b" by linarith
  show ?thesis
  proof (cases "\<bar>x\<bar> \<le> 1 / 2 ^ 1075")
    case True
    with hi have "toDouble x = signedZero (x < 0)" unfolding toDouble_def by (simp only: if_False if_True)
    with b show ?thesis by (simp add: zeroOrWithin_signedZero)
  next
    case False
    with hi have "toDouble x = Finite x" unfolding toDouble_def by (simp only: if_False)
    with assms(1) show ?thesis by (simp add: zeroOrWithin_def)
  qed
qed

lemma jsTimes_within:
  assumes "zeroOrWithin b x" and "0 \<le> b" and "\<bar>y\<bar> \<le> c" and "b * c \<le> 2 ^ 1000"
  shows "zeroOrWithin (b * c) (jsTimes x (Finite y))"
proof -
  from assms(3) have c: "0 \<le> c" by linarith
  with assms(2) have bc: "0 \<le> b * c" by simp
  show ?thesis
  proof (cases x)
    case (Finite q)
    with assms(1) have q: "\<bar>q\<bar> \<le> b" by (simp add: zeroOrWithin_def)
    show ?thesis
    proof (cases "q = 0 \<or> y = 0")
      case True
      then have "jsTimes x (Finite y) = signedZero (signBit x \<noteq> signBit (Finite y))"
        using Finite by (auto simp: jsTimes_def isZero_def isInfinite_def)
      with bc show ?thesis by (simp add: zeroOrWithin_signedZero)
    next
      case False
      then have e: "jsTimes x (Finite y) = toDouble (q * y)"
        using Finite by (simp add: jsTimes_def isZero_def isInfinite_def finiteValue_def)
      have "\<bar>q * y\<bar> \<le> b * c"
        unfolding abs_mult using q assms(3) by (intro mult_mono) simp_all
      then show ?thesis unfolding e using assms(4) by (rule toDouble_below)
    qed
  next
    case NegativeZero
    then have "jsTimes x (Finite y) = signedZero (signBit x \<noteq> signBit (Finite y))"
      by (simp add: jsTimes_def isZero_def isInfinite_def)
    with bc show ?thesis by (simp add: zeroOrWithin_signedZero)
  qed (use assms(1) in \<open>simp_all add: zeroOrWithin_def\<close>)
qed

lemma jsDivide_within:
  assumes "zeroOrWithin b m"
    and "isInfinite a \<or> (v \<noteq> 0 \<and> a = Finite v \<and> b \<le> n * \<bar>v\<bar>)"
    and "0 \<le> n" and "n \<le> 2 ^ 1000"
  shows "zeroOrWithin n (jsDivide m a)"
proof -
  have m: "m \<noteq> NotANumber" "\<not> isInfinite m"
    using assms(1) by (auto simp: zeroOrWithin_def isInfinite_def)
  show ?thesis
  proof (cases "isInfinite a")
    case True
    then have "jsDivide m a = signedZero (signBit m \<noteq> signBit a)"
      using m by (auto simp: jsDivide_def isZero_def isInfinite_def)
    with assms(3) show ?thesis by (simp add: zeroOrWithin_signedZero)
  next
    case False
    with assms(2) have v: "v \<noteq> 0" "a = Finite v" "b \<le> n * \<bar>v\<bar>" by simp_all
    show ?thesis
    proof (cases "isZero m")
      case True
      then have "jsDivide m a = signedZero (signBit m \<noteq> signBit a)"
        using v by (auto simp: jsDivide_def isZero_def isInfinite_def)
      with assms(3) show ?thesis by (simp add: zeroOrWithin_signedZero)
    next
      case nz: False
      then obtain q where q: "m = Finite q" "\<bar>q\<bar> \<le> b"
        using assms(1) by (cases m) (simp_all add: zeroOrWithin_def isZero_def)
      have e: "jsDivide m a = toDouble (q / v)"
        using nz q v by (simp add: jsDivide_def isZero_def isInfinite_def finiteValue_def)
      have "\<bar>q\<bar> \<le> n * \<bar>v\<bar>" using q(2) v(3) by linarith
      then have "\<bar>q / v\<bar> \<le> n"
        using v(1) by (simp add: abs_divide pos_divide_le_eq)
      then show ?thesis unfolding e using assms(4) by (rule toDouble_below)
    qed
  qed
qed

lemma jsDivide_angleStep:
  assumes "1 / 2 ^ 500 \<le> \<bar>s\<bar>" and "\<bar>r\<bar> \<le> 2 ^ 500"
  shows "isInfinite (jsDivide (Finite s) (Finite r))
     \<or> (r \<noteq> 0 \<and> jsDivide (Finite s) (Finite r) = Finite (s / r))"
proof (cases "r = 0")
  case True
  have "(0::real) < 1 / 2 ^ 500" by simp
  with assms(1) have "s \<noteq> 0" by linarith
  with True show ?thesis
    by (simp add: jsDivide_def isZero_def isInfinite_def signedInfinity_def)
next
  case False
  have "(0::real) < 1 / 2 ^ 500" by simp
  with assms(1) have s: "s \<noteq> 0" by linarith
  with False have e: "jsDivide (Finite s) (Finite r) = toDouble (s / r)"
    by (simp add: jsDivide_def isZero_def isInfinite_def finiteValue_def)
  have lo: "\<not> \<bar>s / r\<bar> \<le> 1 / 2 ^ 1075"
  proof
    assume a: "\<bar>s / r\<bar> \<le> 1 / 2 ^ 1075"
    have "\<bar>s\<bar> = \<bar>s / r\<bar> * \<bar>r\<bar>" using False by (simp add: abs_divide)
    also have "\<dots> \<le> 1 / 2 ^ 1075 * 2 ^ 500"
      using a assms(2) by (intro mult_mono) simp_all
    also have "\<dots> < 1 / 2 ^ 500" by simp
    finally show False using assms(1) by linarith
  qed
  show ?thesis
  proof (cases "2 ^ 1024 - 2 ^ 970 \<le> \<bar>s / r\<bar>")
    case True
    then have "toDouble (s / r) = signedInfinity (s / r < 0)"
      unfolding toDouble_def by (simp only: if_True)
    then show ?thesis unfolding e by (simp add: isInfinite_def signedInfinity_def)
  next
    case hi: False
    with lo have "toDouble (s / r) = Finite (s / r)"
      unfolding toDouble_def by (simp only: if_False)
    with False show ?thesis unfolding e by simp
  qed
qed

lemma spiralSteps_bounded:
  assumes "1 / 2 ^ 500 \<le> \<bar>pegSpacing\<bar>" and "\<bar>radius\<bar> \<le> 2 ^ 500" and "\<bar>turns\<bar> \<le> 2 ^ 500"
    and "\<bar>turns\<bar> * \<bar>radius\<bar> * 8 \<le> real N * \<bar>pegSpacing\<bar>" and "N \<le> 100000"
  shows "\<exists>n. spiralSteps radius turns pegSpacing = Bounded n \<and> n \<le> int N"
proof -
  define angleStep where "angleStep = jsDivide (Finite pegSpacing) (Finite radius)"
  define maxAngle where "maxAngle = jsTimes (jsTimes (Finite turns) (Finite 2)) (Finite pi)"
  define steps where "steps = jsDivide maxAngle angleStep"
  have t0: "zeroOrWithin \<bar>turns\<bar> (Finite turns)" by (simp add: zeroOrWithin_def)
  have "\<bar>turns\<bar> * 2 \<le> 2 ^ 500 * 2" using assms(3) by simp
  also have "\<dots> \<le> (2::real) ^ 1000" by simp
  finally have b2: "\<bar>turns\<bar> * 2 \<le> 2 ^ 1000" .
  have t2: "zeroOrWithin (\<bar>turns\<bar> * 2) (jsTimes (Finite turns) (Finite 2))"
    using t0 _ _ b2 by (rule jsTimes_within) simp_all
  have "\<bar>turns\<bar> * 2 * 4 \<le> 2 ^ 500 * 2 * 4" using assms(3) by simp
  also have "\<dots> \<le> (2::real) ^ 1000" by simp
  finally have b8: "\<bar>turns\<bar> * 2 * 4 \<le> 2 ^ 1000" .
  have p: "\<bar>pi\<bar> \<le> 4" using pi_gt_zero pi_less_4 by simp
  have m: "zeroOrWithin (\<bar>turns\<bar> * 2 * 4) maxAngle"
    unfolding maxAngle_def using t2 _ p b8 by (rule jsTimes_within) simp
  have a: "isInfinite angleStep
     \<or> (pegSpacing / radius \<noteq> 0 \<and> angleStep = Finite (pegSpacing / radius)
        \<and> \<bar>turns\<bar> * 2 * 4 \<le> real N * \<bar>pegSpacing / radius\<bar>)"
  proof (cases "isInfinite angleStep")
    case False
    with jsDivide_angleStep [OF assms(1,2)]
    have r: "radius \<noteq> 0" and e: "angleStep = Finite (pegSpacing / radius)"
      by (simp_all add: angleStep_def)
    have "(0::real) < 1 / 2 ^ 500" by simp
    with assms(1) have s: "pegSpacing \<noteq> 0" by linarith
    have "\<bar>turns\<bar> * 2 * 4 * \<bar>radius\<bar> \<le> real N * \<bar>pegSpacing\<bar>"
      using assms(4) by (simp add: mult_ac)
    then have "\<bar>turns\<bar> * 2 * 4 \<le> real N * \<bar>pegSpacing\<bar> / \<bar>radius\<bar>"
      using r by (simp add: pos_le_divide_eq)
    then have "\<bar>turns\<bar> * 2 * 4 \<le> real N * \<bar>pegSpacing / radius\<bar>"
      by (simp add: abs_divide)
    with r s e show ?thesis by simp
  qed simp
  have "real N \<le> 100000" using assms(5) by simp
  also have "\<dots> \<le> (2::real) ^ 1000" by simp
  finally have n: "real N \<le> 2 ^ 1000" .
  have st: "zeroOrWithin (real N) steps"
    unfolding steps_def using m a _ n by (rule jsDivide_within) simp
  have eq: "spiralSteps radius turns pegSpacing =
      (case steps of
         Finite q \<Rightarrow> if 2 ^ 53 < \<lfloor>q\<rfloor> then Unbounded else Bounded \<lfloor>q\<rfloor>
       | NegativeZero \<Rightarrow> Bounded 0
       | PositiveInfinity \<Rightarrow> Unbounded
       | NegativeInfinity \<Rightarrow> Bounded 0
       | NotANumber \<Rightarrow> Bounded 0)"
    by (simp add: spiralSteps_def Let_def steps_def maxAngle_def angleStep_def)
  show ?thesis
  proof (cases steps)
    case (Finite q)
    with st have "q \<le> real N" by (simp add: zeroOrWithin_def)
    then have f: "\<lfloor>q\<rfloor> \<le> int N" by linarith
    have "(100000::int) < 2 ^ 53" by simp
    with f assms(5) have "\<not> 2 ^ 53 < \<lfloor>q\<rfloor>" by linarith
    with f show ?thesis unfolding eq Finite by simp
  next
    case NegativeZero
    then show ?thesis unfolding eq by simp
  qed (use st in \<open>simp_all add: zeroOrWithin_def\<close>)
qed

lemma spiralLoop_bounded_returns:
  "nat (n - i) = m \<Longrightarrow>
   \<exists>res. spiralLoop rnd cx cy radius maxAngle angleStep a (Bounded n) i pegs k = Some res
     \<and> length (fst res) \<le> length pegs + m"
proof (induction m arbitrary: i pegs k)
  case 0
  then have "\<not> belowBound i (Bounded n)" by (simp add: belowBound_def)
  then show ?case by (subst spiralLoop.simps) simp
next
  case (Suc m)
  then have b: "belowBound i (Bounded n)" and r: "nat (n - (i + 1)) = m"
    by (simp_all add: belowBound_def)
  define angle where "angle = of_int i * angleStep"
  define distance where "distance = (radius * angle) / maxAngle"
  define p where "p = \<lparr>peg_x = cx + cos angle * distance, peg_y = cy + sin angle * distance,
      colorIndex = \<lfloor>rnd k * of_int a\<rfloor>\<rparr>"
  have step: "spiralLoop rnd cx cy radius maxAngle angleStep a (Bounded n) i pegs k
      = (if distance \<ge> radius
         then spiralLoop rnd cx cy radius maxAngle angleStep a (Bounded n) (i + 1) pegs k
         else spiralLoop rnd cx cy radius maxAngle angleStep a (Bounded n) (i + 1)
                (pegs @ [p]) (k + 1))"
    using b by (subst spiralLoop.simps) (simp add: Let_def angle_def distance_def p_def)
  show ?case
  proof (cases "distance \<ge> radius")
    case True
    from Suc.IH [OF r, of pegs k] obtain res where
      "spiralLoop rnd cx cy radius maxAngle angleStep a (Bounded n) (i + 1) pegs k = Some res"
      "length (fst res) \<le> length pegs + m" by blast
    with True show ?thesis unfolding step by simp
  next
    case False
    from Suc.IH [OF r, of "pegs @ [p]" "k + 1"] obtain res where
      "spiralLoop rnd cx cy radius maxAngle angleStep a (Bounded n) (i + 1) (pegs @ [p]) (k + 1)
         = Some res"
      "length (fst res) \<le> length (pegs @ [p]) + m" by blast
    with False show ?thesis unfolding step by simp
  qed
qed

text \<open>
  C9 (amended). \<^verbatim>\<open>createSpiralPattern\<close> floors none of its inputs. It returns, with at most
  \<open>N\<close> pegs, whenever the spacing has a magnitude of at least \<open>1 / 2 ^ 500\<close>, the radius and
  the number of turns have magnitudes of at most \<open>2 ^ 500\<close>, and
  \<open>\<bar>turns\<bar> * \<bar>radius\<bar> * 8 \<le> N * \<bar>pegSpacing\<bar>\<close> for some \<open>N \<le> 100000\<close>. The signs are free: a
  negative spacing, radius or number of turns is covered, and so is a zero radius or a zero
  number of turns.
\<close>

theorem createSpiralPattern_terminates:
  assumes "1 / 2 ^ 500 \<le> \<bar>pegSpacing\<bar>" and "\<bar>radius\<bar> \<le> 2 ^ 500" and "\<bar>turns\<bar> \<le> 2 ^ 500"
    and "\<bar>turns\<bar> * \<bar>radius\<bar> * 8 \<le> real N * \<bar>pegSpacing\<bar>" and "N \<le> 100000"
  shows "\<exists>r. createSpiralPattern rnd k cur centerX centerY radius turns pegSpacing = Some r
     \<and> length (fst r) \<le> N"
proof -
  from spiralSteps_bounded [OF assms] obtain n where
    n: "spiralSteps radius turns pegSpacing = Bounded n" "n \<le> int N" by blast
  from spiralLoop_bounded_returns [OF refl, where n = n and i = 0 and rnd = rnd
      and cx = centerX and cy = centerY and radius = radius and maxAngle = "turns * 2 * pi"
      and angleStep = "pegSpacing / radius"
      and a = "getAvailableColors (if cur = 0 then 1 else cur)" and pegs = "[]" and k = k]
  obtain res where
    "spiralLoop rnd centerX centerY radius (turns * 2 * pi) (pegSpacing / radius)
       (getAvailableColors (if cur = 0 then 1 else cur)) (Bounded n) 0 [] k = Some res"
    "length (fst res) \<le> nat n" by auto
  with n show ?thesis
    unfolding createSpiralPattern_def Let_def by simp
qed

theorem createSpiralPattern_terminates_witness:
  "1 / 2 ^ 500 \<le> \<bar>241 / 5 :: real\<bar> \<and> \<bar>100 :: real\<bar> \<le> 2 ^ 500 \<and> \<bar>3 :: real\<bar> \<le> 2 ^ 500
   \<and> \<bar>3 :: real\<bar> * \<bar>100\<bar> * 8 \<le> real 50 * \<bar>241 / 5\<bar> \<and> (50 :: nat) \<le> 100000
   \<and> (\<exists>r. createSpiralPattern (constantDraws (1 / 2)) 0 1 400 345 100 3 (241 / 5) = Some r
        \<and> length (fst r) \<le> 50)"
  using createSpiralPattern_terminates [of "241 / 5" 100 3 50 "constantDraws (1 / 2)" 0 1 400 345]
  by simp

lemma spiralLoop_unbounded:
  "spiralLoop rnd cx cy radius maxAngle angleStep a steps i pegs k = Some res
   \<Longrightarrow> steps \<noteq> Unbounded"
proof (rule spiralLoop.raw_induct [where
      P = "\<lambda>rnd cx cy radius maxAngle angleStep a steps i pegs k res. steps \<noteq> Unbounded"],
    goal_cases)
  case (1 self rnd cx cy radius maxAngle angleStep a steps i pegs k res)
  show ?case
  proof
    assume u: "steps = Unbounded"
    then have "belowBound i steps" by (simp add: belowBound_def)
    with "1"(3) have "\<exists>i' pegs' k'. self rnd cx cy radius maxAngle angleStep a steps i' pegs' k'
        = Some res"
      by (auto simp: Let_def split: if_splits)
    with "1"(2) u show False by blast
  qed
qed

lemma spiral_zero_spacing: "spiralSteps 100 3 0 = Unbounded"
proof -
  have p: "2 \<le> pi" "pi < 4" using pi_ge_two pi_less_4 by simp_all
  have m1: "jsTimes (Finite 3) (Finite 2) = Finite 6"
    using toDouble_ordinary [of 6]
    by (simp add: jsTimes_def isZero_def isInfinite_def finiteValue_def)
  have "toDouble (6 * pi) = Finite (6 * pi)"
    using p by (intro toDouble_ordinary) simp_all
  then have m2: "jsTimes (Finite 6) (Finite pi) = Finite (6 * pi)"
    using p by (simp add: jsTimes_def isZero_def isInfinite_def finiteValue_def)
  have a: "jsDivide (Finite 0) (Finite 100) = Finite 0"
    by (simp add: jsDivide_def isZero_def isInfinite_def signedZero_def signBit_def)
  have s: "jsDivide (Finite (6 * pi)) (Finite 0) = PositiveInfinity"
    using p by (simp add: jsDivide_def isZero_def isInfinite_def signedInfinity_def signBit_def)
  show ?thesis
    by (simp add: spiralSteps_def Let_def m1 m2 a s)
qed

text \<open>
  C9 as stated fails: nothing floors a zero spacing, and \<^verbatim>\<open>createSpiralPattern\<close> with
  \<^verbatim>\<open>pegSpacing = 0\<close>, radius 100 and 3 turns computes \<^verbatim>\<open>steps = Infinity\<close> and never leaves
  its loop.
\<close>

theorem createSpiralPattern_zero_spacing_diverges:
  "createSpiralPattern (constantDraws (1 / 2)) 0 1 400 345 100 3 0 = None"
proof (cases "createSpiralPattern (constantDraws (1 / 2)) 0 1 400 345 100 3 0")
  case None
  then show ?thesis .
next
  case (Some res)
  then have "spiralSteps 100 3 0 \<noteq> Unbounded"
    unfolding createSpiralPattern_def Let_def by (rule spiralLoop_unbounded)
  with spiral_zero_spacing show ?thesis by simp
qed

subsection \<open>Pattern selector\<close>

lemma draw_index:
  assumes "0 \<le> r" and "r < 1" and "xs \<noteq> []"
  shows "nat \<lfloor>r * real (length xs)\<rfloor> < length xs"
proof -
  have pos: "0 < real (length xs)" using assms(3) by simp
  with assms(2) have "r * real (length xs) < real (length xs)" by simp
  then have "\<lfloor>r * real (length xs)\<rfloor> < int (length xs)" by linarith
  moreover have "0 \<le> \<lfloor>r * real (length xs)\<rfloor>" using assms(1) pos by simp
  ultimately show ?thesis by linarith
qed

lemma card_filter_neq:
  "card (set (filter (\<lambda>q. q \<noteq> p) xs)) + 1 \<ge> card (set xs)"
proof -
  have "set xs \<subseteq> insert p (set (filter (\<lambda>q. q \<noteq> p) xs))" by auto
  then have "card (set xs) \<le> card (insert p (set (filter (\<lambda>q. q \<noteq> p) xs)))"
    by (intro card_mono) simp_all
  also have "\<dots> \<le> card (set (filter (\<lambda>q. q \<noteq> p) xs)) + 1"
    by (simp add: card_insert_if)
  finally show ?thesis .
qed

text \<open>
  The invariant of the selection loop. \<open>c\<close> is \<open>count\<close> as a natural number; the names
  selected at positions \<open>a\<close> with \<open>a + 2 < c\<close> have been removed from the weighted list.
\<close>

lemma selectLoop_invariant:
  assumes rnd: "\<And>j. 0 \<le> rnd j \<and> rnd j < 1"
  shows "length selected + n = nat count \<Longrightarrow>
    nat count \<le> card (set weighted) + length selected \<Longrightarrow>
    (\<forall>a < length selected. a + 2 < nat count \<longrightarrow> selected ! a \<notin> set weighted) \<Longrightarrow>
    (\<forall>a b. a < b \<and> b < length selected \<and> selected ! a = selected ! b \<longrightarrow>
       Suc b = nat count \<and> Suc a = b) \<Longrightarrow>
    set selected \<subseteq> S \<Longrightarrow> set weighted \<subseteq> S \<Longrightarrow>
    length (fst (selectLoop rnd count n weighted selected k)) = nat count
    \<and> (\<forall>a b. a < b \<and> b < nat count
          \<and> fst (selectLoop rnd count n weighted selected k) ! a
              = fst (selectLoop rnd count n weighted selected k) ! b \<longrightarrow>
          Suc b = nat count \<and> Suc a = b)
    \<and> set (fst (selectLoop rnd count n weighted selected k)) \<subseteq> S"
proof (induction n arbitrary: weighted selected k)
  case 0
  then have "length selected = nat count" by simp
  with 0 show ?case by auto
next
  case (Suc n)
  let ?c = "nat count"
  let ?i = "length selected"
  from Suc.prems(1) have i: "?i < ?c" by simp
  with Suc.prems(2) have "0 < card (set weighted)" by simp
  then have ne: "weighted \<noteq> []" by auto
  define index where "index = nat \<lfloor>rnd k * real (length weighted)\<rfloor>"
  define pattern where "pattern = weighted ! index"
  define selected' where "selected' = selected @ [pattern]"
  define weighted' where "weighted' = (if int (length selected') < count - 1
      then filter (\<lambda>q. q \<noteq> pattern) weighted else weighted)"
  have idx: "index < length weighted"
    unfolding index_def using rnd [of k] ne by (intro draw_index) simp_all
  then have pin: "pattern \<in> set weighted" by (simp add: pattern_def)
  have step: "selectLoop rnd count (Suc n) weighted selected k
      = selectLoop rnd count n weighted' selected' (k + 1)"
    using ne by (simp add: Let_def index_def pattern_def selected'_def weighted'_def)
  have len: "length selected' + n = ?c"
    using Suc.prems(1) by (simp add: selected'_def)
  have card: "?c \<le> card (set weighted') + length selected'"
    using Suc.prems(2) card_filter_neq [of weighted pattern]
    by (simp add: weighted'_def selected'_def)
  have sub: "set weighted' \<subseteq> set weighted" by (auto simp: weighted'_def)
  have removed: "\<forall>a < length selected'. a + 2 < ?c \<longrightarrow> selected' ! a \<notin> set weighted'"
  proof (intro allI impI)
    fix a assume a: "a < length selected'" and c: "a + 2 < ?c"
    show "selected' ! a \<notin> set weighted'"
    proof (cases "a < ?i")
      case True
      with Suc.prems(3) c have "selected ! a \<notin> set weighted" by simp
      with True sub show ?thesis by (auto simp: selected'_def nth_append)
    next
      case False
      with a have "a = ?i" by (simp add: selected'_def)
      with c have "int (length selected') < count - 1" by (simp add: selected'_def)
      then have "pattern \<notin> set weighted'" by (simp add: weighted'_def)
      with \<open>a = ?i\<close> show ?thesis by (simp add: selected'_def)
    qed
  qed
  have pairs: "\<forall>a b. a < b \<and> b < length selected' \<and> selected' ! a = selected' ! b \<longrightarrow>
       Suc b = ?c \<and> Suc a = b"
  proof (intro allI impI)
    fix a b assume h: "a < b \<and> b < length selected' \<and> selected' ! a = selected' ! b"
    show "Suc b = ?c \<and> Suc a = b"
    proof (cases "b < ?i")
      case True
      with h have "a < b" "b < length selected" "selected ! a = selected ! b"
        by (auto simp add: selected'_def nth_append)
      with Suc.prems(4) show ?thesis by blast
    next
      case False
      with h have b: "b = ?i" by (simp add: selected'_def)
      with h have a: "a < ?i" by simp
      with h b have "selected ! a = pattern" by (simp add: selected'_def nth_append)
      with pin have "selected ! a \<in> set weighted" by simp
      with Suc.prems(3) a have "\<not> a + 2 < ?c" by blast
      with a b i show ?thesis by simp
    qed
  qed
  have s1: "set selected' \<subseteq> S"
    using Suc.prems(5,6) pin by (auto simp: selected'_def)
  have s2: "set weighted' \<subseteq> S"
    using Suc.prems(6) sub by blast
  from Suc.IH [OF len card removed pairs s1 s2] show ?case
    unfolding step .
qed

lemma set_weightedPatterns:
  "set (weightedPatterns levelNumber availablePatterns) \<subseteq> set availablePatterns"
  by (auto simp: weightedPatterns_def split: option.splits)

lemma distinct_butlast_pairs:
  assumes "\<forall>a b. a < b \<and> b < length xs \<and> xs ! a = xs ! b \<longrightarrow> Suc b = length xs \<and> Suc a = b"
  shows "distinct (butlast xs)"
proof -
  have "butlast xs ! a \<noteq> butlast xs ! b"
    if "a < b" "b < length (butlast xs)" for a b
  proof
    assume e: "butlast xs ! a = butlast xs ! b"
    from that have "b < length xs" "Suc b \<noteq> length xs" by simp_all
    moreover from e that have "xs ! a = xs ! b" by (simp add: nth_butlast)
    ultimately show False using assms that(1) by blast
  qed
  then show ?thesis
    by (metis distinct_conv_nth nat_neq_iff)
qed

text \<open>
  What the selection loop does: when the weighted list holds at least \<open>count\<close> different
  names, it returns exactly \<open>count\<close> names of the available patterns; all but the last are
  pairwise different, and the last differs from all but the one just before it.
\<close>

lemma selectRandomPatternsForLevel_repeats_only_last:
  assumes "\<forall>j. 0 \<le> rnd j \<and> rnd j < 1"
    and "count \<le> int (card (set (weightedPatterns levelNumber availablePatterns)))"
  shows "length (fst (selectRandomPatternsForLevel rnd k availablePatterns count levelNumber))
      = nat count
    \<and> distinct (butlast
        (fst (selectRandomPatternsForLevel rnd k availablePatterns count levelNumber)))
    \<and> (\<forall>a b. a < b
          \<and> b < length (fst (selectRandomPatternsForLevel rnd k availablePatterns count
                               levelNumber))
          \<and> fst (selectRandomPatternsForLevel rnd k availablePatterns count levelNumber) ! a
              = fst (selectRandomPatternsForLevel rnd k availablePatterns count levelNumber) ! b
          \<longrightarrow> Suc b = nat count \<and> Suc a = b)
    \<and> set (fst (selectRandomPatternsForLevel rnd k availablePatterns count levelNumber))
        \<subseteq> set availablePatterns"
proof -
  let ?w = "weightedPatterns levelNumber availablePatterns"
  let ?sel = "fst (selectLoop rnd count (nat count) ?w [] k)"
  from assms(2) have c: "nat count \<le> card (set ?w) + length ([]::string list)" by simp
  have r: "\<And>j. 0 \<le> rnd j \<and> rnd j < 1" using assms(1) by blast
  have "length ?sel = nat count
    \<and> (\<forall>a b. a < b \<and> b < nat count \<and> ?sel ! a = ?sel ! b \<longrightarrow> Suc b = nat count \<and> Suc a = b)
    \<and> set ?sel \<subseteq> set availablePatterns"
    using set_weightedPatterns [of levelNumber availablePatterns]
    by (intro selectLoop_invariant [OF r _ c]) simp_all
  then have inv: "length ?sel = nat count"
    "\<forall>a b. a < b \<and> b < nat count \<and> ?sel ! a = ?sel ! b \<longrightarrow> Suc b = nat count \<and> Suc a = b"
    "set ?sel \<subseteq> set availablePatterns"
    by blast+
  have p: "\<forall>a b. a < b \<and> b < length ?sel \<and> ?sel ! a = ?sel ! b \<longrightarrow>
      Suc b = length ?sel \<and> Suc a = b"
    unfolding inv(1) by (rule inv(2))
  have q: "\<forall>a b. a < b \<and> b < length ?sel \<and> ?sel ! a = ?sel ! b \<longrightarrow>
      Suc b = nat count \<and> Suc a = b"
    unfolding inv(1) by (rule inv(2))
  show ?thesis
    unfolding selectRandomPatternsForLevel_def
    using distinct_butlast_pairs [OF p] inv(1) q inv(3) by blast
qed

lemma level4_patterns:
  "selectPatternsByDifficulty (difficultyFactor 4)
    = [''grid'', ''checkerboard'', ''diamond'', ''wave'', ''random'']"
  by (simp add: selectPatternsByDifficulty_def difficultyFactor_def patternNames_def
      difficultyOf_def patternDifficulty_def inheritedNames_def)

lemma level4_weighted:
  "weightedPatterns 4 [''grid'', ''checkerboard'', ''diamond'', ''wave'', ''random'']
    = replicate 9 ''grid'' @ replicate 8 ''checkerboard'' @ replicate 6 ''diamond''
      @ replicate 5 ''wave'' @ replicate 7 ''random''"
  by (simp add: weightedPatterns_def patternWeight_def difficultyOf_def patternDifficulty_def
      inheritedNames_def)

lemma level4_selection:
  "fst (selectRandomPatternsForLevel (constantDraws 0) 0
          (selectPatternsByDifficulty (difficultyFactor 4)) (patternCount 4) 4)
    = [''grid'', ''checkerboard'', ''checkerboard'']"
proof -
  have n: "nat (patternCount 4) = Suc (Suc (Suc 0))" "patternCount 4 = 3"
    by (simp_all add: patternCount_def maxPatterns_def)
  show ?thesis
    unfolding selectRandomPatternsForLevel_def level4_patterns level4_weighted n
    by (simp add: Let_def numeral_eq_Suc)
qed


lemma inherited_name_unweighted:
  "weightedPatterns levelNumber [''toString'', ''valueOf'', ''grid'']
     = weightedPatterns levelNumber [''grid'']"
  by (simp add: weightedPatterns_def patternWeight_def difficultyOf_def patternDifficulty_def
      inheritedNames_def)

text \<open>
  C7 fails on the call \<^verbatim>\<open>generateLevel(4)\<close> makes: five patterns are available and three are
  wanted, but when every draw is 0 the second and the third selection are both
  \<^verbatim>\<open>checkerboard\<close>, although \<^verbatim>\<open>diamond\<close>, \<^verbatim>\<open>wave\<close> and \<^verbatim>\<open>random\<close> are still in the list. The
  comment at lines 1074-1075 says that all instances of a chosen pattern are removed ``to
  avoid duplicates unless we're running out of options'', but the guard
  \<^verbatim>\<open>selected.length < count - 1\<close> skips the removal after the second-to-last selection
  whatever is left in the list.
\<close>

theorem level4_selection_repeats:
  "fst (selectRandomPatternsForLevel (constantDraws 0) 0
          (selectPatternsByDifficulty (difficultyFactor 4)) (patternCount 4) 4)
     = [''grid'', ''checkerboard'', ''checkerboard'']
   \<and> patternCount 4 = 3
   \<and> card (set (weightedPatterns 4 (selectPatternsByDifficulty (difficultyFactor 4)))) = 5
   \<and> \<not> distinct [''grid'', ''checkerboard'', ''checkerboard'']"
proof -
  have "patternCount 4 = 3"
    by (simp add: patternCount_def maxPatterns_def)
  moreover
  have "card (set (weightedPatterns 4 (selectPatternsByDifficulty (difficultyFactor 4)))) = 5"
    by (simp add: level4_patterns level4_weighted)
  moreover have "\<not> distinct [''grid'', ''checkerboard'', ''checkerboard'']"
    by simp
  ultimately show ?thesis
    using level4_selection by blast
qed

subsection \<open>The minimum per colour\<close>

lemma colorCount_map:
  "colorCount c pegs = length (filter (\<lambda>i. i = c) (map colorIndex pegs))"
  by (simp add: colorCount_def filter_map o_def)

lemma skewed_grid_length:
  "length (fst (levelPegs gameConfig skewedDraws [] 0 1)) = 72"
  by (simp add: levelPegs_def level1_spacing generateSimpleLevel_def horizontalMargin_def
      createGridPattern_def gridCell_def getAvailableColors_cases upt6 upt12 skewedDraws_def)

lemma skewed_grid_colors:
  "map colorIndex (fst (levelPegs gameConfig skewedDraws [] 0 1))
     = replicate 7 0 @ replicate 65 1"
  by (simp add: levelPegs_def level1_spacing generateSimpleLevel_def horizontalMargin_def
      createGridPattern_def gridCell_def getAvailableColors_cases upt6 upt12 skewedDraws_def
      numeral_eq_Suc)

lemma skewed_balanced_colors:
  "map colorIndex (fst (balanceColors gameConfig skewedDraws
       (snd (levelPegs gameConfig skewedDraws [] 0 1))
       (fst (levelPegs gameConfig skewedDraws [] 0 1)) 4 1))
     = replicate 4 2 @ replicate 3 0 @ replicate 4 3 @ replicate 61 1"
  apply (simp add: balanceColors_low_level)
  apply (simp add: levelPegs_def level1_spacing generateSimpleLevel_def horizontalMargin_def
      createGridPattern_def gridCell_def getAvailableColors_cases upt6 upt12 skewedDraws_def
      countBelow_def
      ensureMinimumColorCounts_def wrapColor_def countAll_def colorOrder_def
      balanceColor_def minPerColor_def otherColor_def upto_0_3 zeroCounts_def incr_def decr_def
      countLt_def Let_def
      numeral_eq_Suc)
  done

text \<open>
  C3 fails at level 1 of the game's generator (800 by 650, radius 10, four colours, minimum
  \<open>max 3 \<lfloor>5 - 0.1\<rfloor> = 4\<close> per colour). Under the outcome \<open>skewedDraws\<close> all 72 cells of the grid
  are filled, the first seven pegs with colour 0 and the other 65 with colour 1, and no
  top-up runs. \<^verbatim>\<open>ensureMinimumColorCounts\<close> leaves colours 0 and 1 alone, then fills colour 2
  from the colours that have more than \<open>minPerColor + 2 = 6\<close> pegs: colour 0 has seven, and
  the first four pegs of the list, all of colour 0, are converted. Colour 0 is not visited
  again, so the returned level has three pegs of colour 0, fewer than the minimum of four.
\<close>

theorem generateLevel_color_minimum_missed:
  "generateLevel gameConfig skewedDraws [] 0 1 \<noteq> None
   \<and> map colorIndex (the (generateLevel gameConfig skewedDraws [] 0 1))
       = replicate 4 2 @ replicate 3 0 @ replicate 4 3 @ replicate 61 1
   \<and> colorCount 0 (the (generateLevel gameConfig skewedDraws [] 0 1)) = 3
   \<and> getAvailableColors 1 = 4
   \<and> minPerColor 1 = 4"
proof -
  have "\<not> toppedUp gameConfig skewedDraws [] 0 1"
    by (simp add: toppedUp_def skewed_grid_length level1_minimum)
  from generateLevel_not_topped [OF this]
  have g: "generateLevel gameConfig skewedDraws [] 0 1 =
      Some (fst (balanceColors gameConfig skewedDraws
                   (snd (levelPegs gameConfig skewedDraws [] 0 1))
                   (fst (levelPegs gameConfig skewedDraws [] 0 1)) 4 1))"
    by (simp add: getAvailableColors_cases)
  have m: "minPerColor 1 = 4"
    by (simp add: minPerColor_def)
  have a: "getAvailableColors 1 = 4"
    by (simp add: getAvailableColors_cases)
  have c: "colorCount 0 (the (generateLevel gameConfig skewedDraws [] 0 1)) = 3"
    unfolding colorCount_map g option.sel skewed_balanced_colors by simp
  show ?thesis
    using c m a by (simp add: g skewed_balanced_colors)
qed

subsection \<open>The colour range\<close>

lemma spiralGradient_above_centre:
  "spiralGradient gameConfig \<lparr>peg_x = 400, peg_y = 323, colorIndex = c\<rparr> 8 12 = - 2"
proof -
  define w where "w = (12 / 100) / pi"
  define v where "v = (- (pi / 2) + 24 / 100) / (pi * 2)"
  have p: "2 \<le> pi" "pi < 4" by (rule pi_ge_two, rule pi_less_4)
  have v: "v = - (1 / 4) + w"
    using p by (simp add: v_def w_def field_simps)
  have lo: "0 < w" using p by (simp add: w_def)
  have hi: "w \<le> 6 / 100"
    using p by (simp add: w_def field_simps)
  have neg: "v < 0" "- 1 < v" using lo hi unfolding v by linarith+
  then have t: "jsTrunc (v / 1) = 0"
    by (simp add: jsTrunc_def ceiling_eq_iff)
  have f: "\<lfloor>v * 8\<rfloor> = - 2"
  proof -
    have "- 2 \<le> v * 8" "v * 8 < - 2 + 1"
      using lo hi unfolding v by (simp_all add: algebra_simps)
    then show ?thesis by (simp add: floor_eq_iff)
  qed
  have "spiralGradient gameConfig \<lparr>peg_x = 400, peg_y = 323, colorIndex = c\<rparr> 8 12
      = \<lfloor>jsFmod v 1 * 8\<rfloor>"
    by (simp add: spiralGradient_def atan2_def Let_def v_def)
  also have "\<dots> = - 2"
    using t f by (simp add: jsFmod_def)
  finally show ?thesis .
qed

lemma level12_spacing: "levelPegSpacing gameConfig 12 = 142 / 5"
  by (simp add: levelPegSpacing_def minPegSpacing_def)

lemma level12_minimum: "getMinimumPegCount 12 = 90"
  by (simp add: getMinimumPegCount_def minPegCountPerLevel_def pegIncreasePerLevel_def
      maxPegCount_def)

lemma spiralPlaced_separated: "separated (142 / 5 * 0.8) spiralPlaced"
proof -
  have "568 / 25 \<le> pegDistance p 400 323" if "peg_y p = 255" for p
    using that by (intro pegDistance_ge_dy) simp
  then show ?thesis
    by (simp add: spiralPlaced_def separated_def pegDistance_same_y)
qed

lemma spiralPlaced_inside:
  "list_all (insideEdges gameConfig (pegRadius gameConfig * 2)) spiralPlaced"
  by (simp add: spiralPlaced_def insideEdges_def horizontalMargin_def)

lemma level12_pegs:
  "levelPegs gameConfig rnd spiralPlaced 0 12 = (spiralPlaced, 0)"
  using removePegOverlaps_id [OF spiralPlaced_separated]
    removeEdgePegs_id [OF spiralPlaced_inside]
  by (simp add: levelPegs_def generateProceduralLevel_def level12_spacing Let_def)

lemma level12_topup:
  "ensureMinimumPegs gameConfig (constantDraws (3 / 10)) 0 spiralPlaced 90 (142 / 5) 12 8
     = Some (spiralPlaced, 3440)"
proof -
  have "ensureMinimumPegs gameConfig (constantDraws (3 / 10)) 0 spiralPlaced 90 (142 / 5) 12 8 =
      (if pegRadius gameConfig * 3 < 142 / 5
       then ensureMinimumPegs gameConfig (constantDraws (3 / 10))
              (0 + 2 * nat ((90 - int (length spiralPlaced)) * 20)) spiralPlaced 90
              (142 / 5 * 0.9) 12 8
       else Some (spiralPlaced, 0 + 2 * nat ((90 - int (length spiralPlaced)) * 20)))"
  proof (rule topup_rejected [where c = "3 / 10"])
    show "constantDraws (3 / 10) (0 + j) = 3 / 10" for j by simp
    show "tooClose spiralPlaced
        (horizontalMargin + 3 / 10 * (canvasWidth gameConfig - horizontalMargin - horizontalMargin))
        (120 + 3 / 10 * (canvasHeight gameConfig - 80 - 120)) (142 / 5 * 1.2)"
      by (simp add: spiralPlaced_def tooClose_Cons horizontalMargin_def pegDistance_same_y)
    show "int (length spiralPlaced) < 90" by (simp add: spiralPlaced_def)
    show "separated (142 / 5 * 0.8) spiralPlaced" by (rule spiralPlaced_separated)
    show "list_all (insideEdges gameConfig (pegRadius gameConfig * 2)) spiralPlaced"
      by (rule spiralPlaced_inside)
  qed
  then show ?thesis by (simp add: spiralPlaced_def)
qed

lemma level12_gradient:
  "fst (applyColorGradient gameConfig (constantDraws (3 / 10)) k spiralPlaced 8 12)
     = [\<lparr>peg_x = 310, peg_y = 255, colorIndex = 2\<rparr>,
        \<lparr>peg_x = 210, peg_y = 255, colorIndex = 1\<rparr>,
        \<lparr>peg_x = 410, peg_y = 255, colorIndex = 4\<rparr>,
        \<lparr>peg_x = 400, peg_y = 323, colorIndex = - 2\<rparr>]"
  by (simp add: applyColorGradient_def blendColorGradients_def blendPick_def gradientTypes_def
      jsRem_def spiralPlaced_def spiralGradient_above_centre horizontalGradient_def
      horizontalMargin_def Let_def)

lemma upto_0_7: "[0..(7::int)] = [0, 1, 2, 3, 4, 5, 6, 7]"
  by (simp add: upto.simps)

lemma level12_colors:
  "ensureMinimumColorCounts
     [\<lparr>peg_x = 310, peg_y = 255, colorIndex = 2\<rparr>,
      \<lparr>peg_x = 210, peg_y = 255, colorIndex = 1\<rparr>,
      \<lparr>peg_x = 410, peg_y = 255, colorIndex = 4\<rparr>,
      \<lparr>peg_x = 400, peg_y = 323, colorIndex = - 2\<rparr>] 8 12
   = [\<lparr>peg_x = 310, peg_y = 255, colorIndex = 7\<rparr>,
      \<lparr>peg_x = 210, peg_y = 255, colorIndex = 7\<rparr>,
      \<lparr>peg_x = 410, peg_y = 255, colorIndex = 7\<rparr>,
      \<lparr>peg_x = 400, peg_y = 323, colorIndex = - 2\<rparr>]"
  by (simp add: ensureMinimumColorCounts_def wrapColor_def countAll_def colorOrder_def
      balanceColor_def minPerColor_def otherColor_def upto_0_7 zeroCounts_def incr_def decr_def
      countLt_def Let_def)

lemma level12_clamp:
  "clampLoop 8 c spiralPlaced = spiralPlaced"
  by (simp add: spiralPlaced_def)

text \<open>
  C1 fails at level 12 of the game's generator (800 by 650, radius 10, eight colours) when
  every draw is 0.3 and the pattern stage hands over the four pegs of \<open>spiralPlaced\<close>. The
  top-up places nothing, because its only candidate position (280, 255) is 30 away from
  the first peg. \<^verbatim>\<open>applyColorGradient\<close> blends the spiral gradient (type \<open>12 mod 7 = 5\<close>)
  with the horizontal one on a checkerboard of 50-pixel cells; the peg at (400, 323) lies in
  a cell of the spiral gradient, whose value there is \<open>- 1 / 4 + 0.12 / \<pi>\<close>, negative, and
  \<^verbatim>\<open>%\<close> keeps the sign, so the peg gets the colour index \<open>\<lfloor>(- 1 / 4 + 0.12 / \<pi>) * 8\<rfloor> = - 2\<close>.
  \<^verbatim>\<open>ensureMinimumColorCounts\<close> reduces only the indices \<^verbatim>\<open>>= availableColors\<close>, and its
  conversion loops stop after the first three pegs, so the level is returned with a peg
  whose colour index is \<open>- 2\<close>, outside \<open>[0, getAvailableColors 12) = [0, 8)\<close>.
\<close>

theorem generateLevel_negative_color:
  "generateLevel gameConfig (constantDraws (3 / 10)) spiralPlaced 0 12
     = Some [\<lparr>peg_x = 310, peg_y = 255, colorIndex = 7\<rparr>,
             \<lparr>peg_x = 210, peg_y = 255, colorIndex = 7\<rparr>,
             \<lparr>peg_x = 410, peg_y = 255, colorIndex = 7\<rparr>,
             \<lparr>peg_x = 400, peg_y = 323, colorIndex = - 2\<rparr>]
   \<and> getAvailableColors 12 = 8"
proof -
  let ?r = "constantDraws (3 / 10)"
  have a: "getAvailableColors 12 = 8"
    by (simp add: getAvailableColors_cases)
  have t: "toppedUp gameConfig ?r spiralPlaced 0 12"
    by (simp add: toppedUp_def level12_pegs level12_minimum) (simp add: spiralPlaced_def)
  have "ensureMinimumPegs gameConfig ?r (snd (levelPegs gameConfig ?r spiralPlaced 0 12))
       (fst (levelPegs gameConfig ?r spiralPlaced 0 12)) (getMinimumPegCount 12)
       (levelPegSpacing gameConfig 12) 12 (getAvailableColors 12)
     = Some (spiralPlaced, 3440)"
    by (simp add: level12_pegs level12_minimum level12_spacing a level12_topup)
  from generateLevel_topped [OF t this]
  have "generateLevel gameConfig ?r spiralPlaced 0 12 =
      Some (fst (balanceColors gameConfig ?r 3440 spiralPlaced 8 12))"
    by (simp add: a)
  also have "fst (balanceColors gameConfig ?r 3440 spiralPlaced 8 12) =
      ensureMinimumColorCounts
        (fst (applyColorGradient gameConfig ?r 3440 spiralPlaced 8 12)) 8 12"
    by (simp add: balanceColors_def level12_clamp Let_def)
  finally have "generateLevel gameConfig ?r spiralPlaced 0 12 =
      Some (ensureMinimumColorCounts
        (fst (applyColorGradient gameConfig ?r 3440 spiralPlaced 8 12)) 8 12)" .
  then have "generateLevel gameConfig ?r spiralPlaced 0 12
     = Some [\<lparr>peg_x = 310, peg_y = 255, colorIndex = 7\<rparr>,
             \<lparr>peg_x = 210, peg_y = 255, colorIndex = 7\<rparr>,
             \<lparr>peg_x = 410, peg_y = 255, colorIndex = 7\<rparr>,
             \<lparr>peg_x = 400, peg_y = 323, colorIndex = - 2\<rparr>]"
    by (simp only: level12_gradient level12_colors)
  from this a show ?thesis by (rule conjI)
qed

subsection \<open>Negative colour indices are not repaired\<close>

lemma spiralGradient_negative:
  assumes a: "0 < availableColors"
    and v: "atan2 (peg_y p - canvasHeight cfg / 2) (peg_x p - canvasWidth cfg / 2)
        + sqrt ((peg_x p - canvasWidth cfg / 2) * (peg_x p - canvasWidth cfg / 2)
            + (peg_y p - canvasHeight cfg / 2) * (peg_y p - canvasHeight cfg / 2))
          * 0.01 * of_int levelNumber < 0"
    and l: "0 \<le> levelNumber"
  shows "spiralGradient cfg p availableColors levelNumber < 0"
proof -
  define dx where "dx = peg_x p - canvasWidth cfg / 2"
  define dy where "dy = peg_y p - canvasHeight cfg / 2"
  define s where "s = (atan2 dy dx + sqrt (dx * dx + dy * dy) * 0.01 * of_int levelNumber)
    / (pi * 2)"
  have lower: "- pi < atan2 dy dx"
    using arctan_lbound [of "dy / dx"] arctan_ubound [of "dy / dx"] pi_gt_zero
    by (auto simp: atan2_def zero_less_divide_iff)
  have "0 \<le> sqrt (dx * dx + dy * dy) * 0.01 * of_int levelNumber"
    using l by simp
  with lower have num: "- pi < atan2 dy dx + sqrt (dx * dx + dy * dy) * 0.01 * of_int levelNumber"
    by linarith
  have neg: "s < 0"
    using v pi_gt_zero unfolding s_def dx_def dy_def by (simp add: divide_neg_pos)
  have "- 1 * (pi * 2)
      < atan2 dy dx + sqrt (dx * dx + dy * dy) * 0.01 * of_int levelNumber"
    using num pi_gt_zero by linarith
  then have "- 1 < s"
    unfolding s_def using pi_gt_zero by (subst pos_less_divide_eq) simp_all
  with neg have "jsTrunc (s / 1) = 0"
    by (simp add: jsTrunc_def ceiling_eq_iff)
  then have "jsFmod s 1 = s"
    by (simp add: jsFmod_def)
  moreover have "s * of_int availableColors < 0"
    using neg a by (simp add: mult_neg_pos)
  ultimately have "\<lfloor>jsFmod s 1 * of_int availableColors\<rfloor> < 0"
    by (simp add: floor_less_iff)
  then show ?thesis
    by (simp add: spiralGradient_def Let_def s_def dx_def dy_def)
qed

lemma convertLoop_length:
  "length (fst (convertLoop eligible color needed pegs c converted)) = length pegs"
  by (induction pegs arbitrary: c converted) (simp_all add: Let_def)

lemma convertLoop_not_eligible:
  "j < length pegs \<Longrightarrow> \<not> eligible (colorIndex (pegs ! j)) \<Longrightarrow>
   fst (convertLoop eligible color needed pegs c converted) ! j = pegs ! j"
proof (induction pegs arbitrary: c converted j)
  case Nil
  then show ?case by simp
next
  case (Cons p ps)
  show ?case
  proof (cases j)
    case 0
    with Cons.prems show ?thesis by (simp add: Let_def)
  next
    case (Suc j')
    with Cons.prems Cons.IH [of j'] show ?thesis by (simp add: Let_def)
  qed
qed

lemma convertLoop_beyond:
  "j < length pegs \<Longrightarrow>
   needed - converted \<le> int (length (filter (\<lambda>p. eligible (colorIndex p)) (take j pegs))) \<Longrightarrow>
   fst (convertLoop eligible color needed pegs c converted) ! j = pegs ! j"
proof (induction pegs arbitrary: c converted j)
  case Nil
  then show ?case by simp
next
  case (Cons p ps)
  show ?case
  proof (cases "converted < needed")
    case False
    then show ?thesis by simp
  next
    case True
    show ?thesis
    proof (cases j)
      case 0
      with Cons.prems True show ?thesis by simp
    next
      case (Suc j')
      show ?thesis
      proof (cases "eligible (colorIndex p)")
        case e: True
        from Cons.prems Suc e have "needed - (converted + 1)
            \<le> int (length (filter (\<lambda>p. eligible (colorIndex p)) (take j' ps)))"
          by simp
        from Cons.IH [OF _ this] Cons.prems(1) Suc True e show ?thesis
          by (simp add: Let_def)
      next
        case e: False
        from Cons.prems Suc e have "needed - converted
            \<le> int (length (filter (\<lambda>p. eligible (colorIndex p)) (take j' ps)))"
          by simp
        from Cons.IH [OF _ this] Cons.prems(1) Suc True e show ?thesis
          by (simp add: Let_def)
      qed
    qed
  qed
qed

lemma countsMatch_convert:
  assumes "countsMatch a (pre @ p # ps) c" and "colorIndex p \<noteq> color"
  shows "countsMatch a (pre @ p\<lparr>colorIndex := color\<rparr> # ps) (incr (decr c (colorIndex p)) color)"
  using assms by (auto simp: countsMatch_def colorCount_def incr_def decr_def)

lemma convertLoop_counts:
  assumes "\<And>ci. eligible ci \<Longrightarrow> ci \<noteq> color"
  shows "countsMatch a (pre @ pegs) c \<Longrightarrow>
    countsMatch a (pre @ fst (convertLoop eligible color needed pegs c converted))
      (fst (snd (convertLoop eligible color needed pegs c converted)))"
proof (induction pegs arbitrary: pre c converted)
  case Nil
  then show ?case by simp
next
  case (Cons p ps)
  show ?case
  proof (cases "converted < needed \<and> eligible (colorIndex p)")
    case True
    then have "colorIndex p \<noteq> color" using assms by blast
    from countsMatch_convert [OF Cons.prems this]
    have "countsMatch a ((pre @ [p\<lparr>colorIndex := color\<rparr>]) @ ps)
        (incr (decr c (colorIndex p)) color)" by simp
    from Cons.IH [OF this, of "converted + 1"] True show ?thesis
      by (simp add: Let_def)
  next
    case False
    show ?thesis
    proof (cases "converted < needed")
      case True
      from Cons.prems have "countsMatch a ((pre @ [p]) @ ps) c" by simp
      from Cons.IH [OF this, of converted] True False show ?thesis
        by (simp add: Let_def)
    next
      case False
      with Cons.prems show ?thesis by simp
    qed
  qed
qed

lemma convertLoop_converted:
  assumes "\<And>ci. eligible ci \<Longrightarrow> ci \<noteq> color"
  shows "converted \<le> snd (snd (convertLoop eligible color needed pegs c converted))
    \<and> int (colorCount color (fst (convertLoop eligible color needed pegs c converted)))
        = int (colorCount color pegs)
          + (snd (snd (convertLoop eligible color needed pegs c converted)) - converted)"
proof (induction pegs arbitrary: c converted)
  case Nil
  show ?case by simp
next
  case (Cons p ps)
  show ?case
  proof (cases "converted < needed")
    case False
    then show ?thesis by simp
  next
    case True
    show ?thesis
    proof (cases "eligible (colorIndex p)")
      case e: True
      then have "colorIndex p \<noteq> color" using assms by blast
      with Cons.IH [where c = "incr (decr c (colorIndex p)) color"
          and converted = "converted + 1"] True e
      show ?thesis by (simp add: Let_def colorCount_def)
    next
      case e: False
      with Cons.IH [where c = c and converted = converted] True show ?thesis
        by (simp add: Let_def colorCount_def)
    qed
  qed
qed

lemma filter_take_length:
  "length (filter P (take i xs)) \<le> length (filter P xs)"
proof -
  have "length (filter P xs) = length (filter P (take i xs @ drop i xs))" by simp
  also have "\<dots> = length (filter P (take i xs)) + length (filter P (drop i xs))"
    by (simp only: filter_append length_append)
  finally show ?thesis by simp
qed

lemma others_before:
  assumes "i \<le> length pegs"
  shows "int i - int (colorCount color pegs)
    \<le> int (length (filter (\<lambda>p. colorIndex p \<noteq> color) (take i pegs)))"
proof -
  have "length (filter (\<lambda>p. colorIndex p = color) (take i pegs))
      + length (filter (\<lambda>p. colorIndex p \<noteq> color) (take i pegs)) = length (take i pegs)"
    by (rule sum_length_filter_compl)
  moreover have "length (filter (\<lambda>p. colorIndex p = color) (take i pegs)) \<le> colorCount color pegs"
    unfolding colorCount_def by (rule filter_take_length)
  ultimately show ?thesis using assms by simp
qed

lemma convertLoop_others_keeps:
  assumes inv: "countsMatch a pegs c"
    and i: "i < length pegs"
    and far: "needed - converted \<le> int i - int (colorCount color pegs)"
  shows "countsMatch a (fst (convertLoop (\<lambda>ci. ci \<noteq> color) color needed pegs c converted))
      (fst (snd (convertLoop (\<lambda>ci. ci \<noteq> color) color needed pegs c converted)))
    \<and> fst (convertLoop (\<lambda>ci. ci \<noteq> color) color needed pegs c converted) ! i = pegs ! i"
proof
  from inv have "countsMatch a ([] @ pegs) c" by simp
  from convertLoop_counts [where eligible = "\<lambda>ci. ci \<noteq> color", OF _ this]
  show "countsMatch a (fst (convertLoop (\<lambda>ci. ci \<noteq> color) color needed pegs c converted))
      (fst (snd (convertLoop (\<lambda>ci. ci \<noteq> color) color needed pegs c converted)))"
    by simp
  from i have "i \<le> length pegs" by simp
  from others_before [OF this, of color] far
  have "needed - converted
      \<le> int (length (filter (\<lambda>p. colorIndex p \<noteq> color) (take i pegs)))"
    by linarith
  from convertLoop_beyond [where eligible = "\<lambda>ci. ci \<noteq> color", OF i this]
  show "fst (convertLoop (\<lambda>ci. ci \<noteq> color) color needed pegs c converted) ! i = pegs ! i" .
qed

lemma balanceColor_keeps:
  assumes L: "levelNumber \<noteq> 3"
    and col: "0 \<le> color" "color < a"
    and inv: "countsMatch a pegs c"
    and i: "i < length pegs"
    and neg: "colorIndex (pegs ! i) < 0"
    and far: "minPerColor levelNumber \<le> int i"
  shows "countsMatch a (fst (balanceColor a levelNumber color (pegs, c)))
      (snd (balanceColor a levelNumber color (pegs, c)))
    \<and> length (fst (balanceColor a levelNumber color (pegs, c))) = length pegs
    \<and> fst (balanceColor a levelNumber color (pegs, c)) ! i = pegs ! i"
proof -
  define m where "m = minPerColor levelNumber"
  define n where "n = colorCount color pegs"
  define needed where "needed = m - int n"
  define excess where "excess =
    filter (\<lambda>ci. \<not> (levelNumber = 3 \<and> ci = 5) \<and> ci \<noteq> color \<and>
                 countLt (Some (minPerColor levelNumber + 2)) (c ci)) [0..a - 1]"
  define r where "r = convertLoop (\<lambda>ci. ci \<noteq> color) color needed pegs c 0"
  define r1 where "r1 = convertLoop (\<lambda>ci. ci \<in> set excess) color needed pegs c 0"
  define r2 where "r2 = convertLoop (\<lambda>ci. ci \<noteq> color) color needed (fst r1) (fst (snd r1))
    (snd (snd r1))"
  have cnt: "c color = Some (int n)"
    using inv col by (simp add: countsMatch_def n_def)
  have other: "otherColor levelNumber color = (\<lambda>ci. ci \<noteq> color)"
    using L by (simp add: otherColor_def fun_eq_iff)
  have step: "balanceColor a levelNumber color (pegs, c) =
      (if int n < m then
         (if excess \<noteq> [] then
            (if snd (snd r1) < needed then (fst r2, fst (snd r2)) else (fst r1, fst (snd r1)))
          else (fst r, fst (snd r)))
       else (pegs, c))"
    unfolding r2_def r1_def r_def needed_def excess_def m_def
    using col L by (simp add: balanceColor_def Let_def countLt_def other cnt)
  show ?thesis
  proof (cases "int n < m")
    case False
    then show ?thesis
      using inv by (simp add: step)
  next
    case short: True
    show ?thesis
    proof (cases "excess = []")
      case True
      have "needed - 0 \<le> int i - int (colorCount color pegs)"
        using far by (simp add: needed_def m_def n_def)
      from convertLoop_others_keeps [OF inv i this] show ?thesis
        using short True by (simp add: step r_def convertLoop_length)
    next
      case False
      have ex: "ci \<noteq> color" "0 \<le> ci" if "ci \<in> set excess" for ci
        using that by (auto simp: excess_def)
      have len1: "length (fst r1) = length pegs"
        by (simp add: r1_def convertLoop_length)
      from inv have "countsMatch a ([] @ pegs) c" by simp
      from convertLoop_counts [where eligible = "\<lambda>ci. ci \<in> set excess", OF _ this]
      have inv1: "countsMatch a (fst r1) (fst (snd r1))"
        using ex(1) by (simp add: r1_def)
      have "\<not> colorIndex (pegs ! i) \<in> set excess"
        using ex(2) neg by force
      from convertLoop_not_eligible [where eligible = "\<lambda>ci. ci \<in> set excess", OF i this]
      have keep1: "fst r1 ! i = pegs ! i"
        by (simp add: r1_def)
      from convertLoop_converted [where eligible = "\<lambda>ci. ci \<in> set excess" and color = color
          and needed = needed and pegs = pegs and c = c and converted = 0]
      have conv1: "int (colorCount color (fst r1)) = int n + snd (snd r1)"
        using ex(1) by (simp add: r1_def n_def)
      show ?thesis
      proof (cases "snd (snd r1) < needed")
        case full: False
        show ?thesis
          using inv1 len1 keep1 short False full by (simp add: step)
      next
        case part: True
        have i1: "i < length (fst r1)" using i len1 by simp
        have "needed - snd (snd r1) \<le> int i - int (colorCount color (fst r1))"
          using far conv1 by (simp add: needed_def m_def)
        from convertLoop_others_keeps [OF inv1 i1 this] show ?thesis
          using short False part by (simp add: step r2_def convertLoop_length len1 keep1)
      qed
    qed
  qed
qed

lemma balanceColor_fold_keeps:
  assumes L: "levelNumber \<noteq> 3"
    and far: "minPerColor levelNumber \<le> int i"
  shows "\<forall>color \<in> set colors. 0 \<le> color \<and> color < a \<Longrightarrow> countsMatch a pegs c \<Longrightarrow>
    i < length pegs \<Longrightarrow> colorIndex (pegs ! i) < 0 \<Longrightarrow>
    length (fst (fold (balanceColor a levelNumber) colors (pegs, c))) = length pegs
    \<and> fst (fold (balanceColor a levelNumber) colors (pegs, c)) ! i = pegs ! i"
proof (induction colors arbitrary: pegs c)
  case Nil
  show ?case by simp
next
  case (Cons color colors)
  obtain pegs' c' where b: "balanceColor a levelNumber color (pegs, c) = (pegs', c')"
    by (cases "balanceColor a levelNumber color (pegs, c)")
  from Cons.prems(1) have col: "0 \<le> color" "color < a" by simp_all
  from balanceColor_keeps [OF L col Cons.prems(2,3,4) far]
  have k: "countsMatch a pegs' c'" "length pegs' = length pegs" "pegs' ! i = pegs ! i"
    by (simp_all add: b)
  from Cons.prems(1) have rest: "\<forall>color \<in> set colors. 0 \<le> color \<and> color < a" by simp
  from Cons.prems(3,4) k have "i < length pegs'" "colorIndex (pegs' ! i) < 0" by simp_all
  from Cons.IH [OF rest k(1) this] k show ?case
    by (simp add: b)
qed

lemma countAll_fold:
  "c col = Some m \<Longrightarrow>
   fold (\<lambda>p c. incr c (colorIndex p)) pegs c col = Some (m + int (colorCount col pegs))"
proof (induction pegs arbitrary: c m)
  case Nil
  then show ?case by (simp add: colorCount_def)
next
  case (Cons p ps)
  show ?case
  proof (cases "colorIndex p = col")
    case True
    with Cons.prems have "incr c (colorIndex p) col = Some (m + 1)"
      by (simp add: incr_def)
    from Cons.IH [where c = "incr c (colorIndex p)" and m = "m + 1", OF this] True
    show ?thesis
      by (simp add: colorCount_def)
  next
    case False
    with Cons.prems have "incr c (colorIndex p) col = Some m"
      by (simp add: incr_def)
    from Cons.IH [where c = "incr c (colorIndex p)" and m = m, OF this] False
    show ?thesis
      by (simp add: colorCount_def)
  qed
qed

lemma countAll_matches:
  "a \<le> 8 \<Longrightarrow> countsMatch a pegs (countAll pegs)"
proof -
  assume a: "a \<le> 8"
  have "countAll pegs col = Some (int (colorCount col pegs))" if "0 \<le> col" "col < a" for col
  proof -
    from that a have "zeroCounts col = Some 0" by (simp add: zeroCounts_def)
    from countAll_fold [where c = zeroCounts and m = 0, OF this, of pegs]
    show ?thesis by (simp add: countAll_def)
  qed
  then show ?thesis by (simp add: countsMatch_def)
qed

lemma wrapColor_negative:
  "colorIndex p < 0 \<Longrightarrow> 0 < a \<Longrightarrow> wrapColor a p = p"
  by (simp add: wrapColor_def)

text \<open>
  \<^verbatim>\<open>ensureMinimumColorCounts\<close> returns a negative colour index as it received it whenever
  the peg stands at a list position at or beyond the minimum per colour: the two
  remapping passes test \<^verbatim>\<open>colorIndex >= availableColors\<close> only, and every conversion loop
  has found the pegs it needs before it reaches that position. Together with
  \<open>spiralGradient_negative\<close> this makes the range violation independent of the size of the
  level.
\<close>

lemma ensureMinimumColorCounts_keeps_negative:
  assumes L: "levelNumber \<noteq> 3"
    and a: "0 < a" "a \<le> 8"
    and i: "i < length pegs"
    and neg: "colorIndex (pegs ! i) < 0"
    and far: "minPerColor levelNumber \<le> int i"
  shows "ensureMinimumColorCounts pegs a levelNumber ! i = pegs ! i"
proof -
  define wrapped where "wrapped = map (wrapColor a) pegs"
  define balanced where "balanced =
    fst (fold (balanceColor a levelNumber) [0..a - 1] (wrapped, countAll wrapped))"
  have w: "i < length wrapped" "wrapped ! i = pegs ! i"
    using i neg a(1) by (simp_all add: wrapped_def wrapColor_negative)
  then have wneg: "colorIndex (wrapped ! i) < 0" using neg by simp
  have "\<forall>color \<in> set [0..a - 1]. 0 \<le> color \<and> color < a" by simp
  from balanceColor_fold_keeps [OF L far this countAll_matches [OF a(2)] w(1) wneg]
  have b: "length balanced = length wrapped" "balanced ! i = wrapped ! i"
    by (simp_all add: balanced_def)
  have "ensureMinimumColorCounts pegs a levelNumber = map (wrapColor a) balanced"
    using L by (simp add: ensureMinimumColorCounts_def colorOrder_def Let_def balanced_def
        wrapped_def)
  with b w neg a(1) show ?thesis
    by (simp add: wrapColor_negative)
qed

text \<open>
  Whenever \<^verbatim>\<open>applyColorGradient\<close> picks the spiral gradient alone, a peg at a list position
  at or beyond the minimum per colour whose spiral value is negative leaves
  \<^verbatim>\<open>balanceColors\<close> with a negative colour index, whatever the other pegs are.
\<close>

lemma balanceColors_spiral_negative:
  assumes L: "3 < levelNumber"
    and spiral: "jsRem (levelNumber + \<lfloor>rnd k * 3\<rfloor>) (min 7 (2 + levelNumber div 2)) = 5"
    and single: "\<not> (levelNumber > 6 \<and> rnd (k + 1) < 0.4)"
    and a: "0 < a" "a \<le> 8"
    and i: "i < length pegs"
    and far: "minPerColor levelNumber \<le> int i"
    and v: "atan2 (peg_y (pegs ! i) - canvasHeight cfg / 2) (peg_x (pegs ! i) - canvasWidth cfg / 2)
        + sqrt ((peg_x (pegs ! i) - canvasWidth cfg / 2) * (peg_x (pegs ! i) - canvasWidth cfg / 2)
            + (peg_y (pegs ! i) - canvasHeight cfg / 2) * (peg_y (pegs ! i) - canvasHeight cfg / 2))
          * 0.01 * of_int levelNumber < 0"
  shows "colorIndex (fst (balanceColors cfg rnd k pegs a levelNumber) ! i) < 0"
proof -
  define balanced where "balanced = clampLoop a (countBelow a pegs zeroCounts) pegs"
  define patterned where
    "patterned = map (\<lambda>p. p\<lparr>colorIndex := spiralGradient cfg p a levelNumber\<rparr>) balanced"
  have pos: "positions balanced = positions pegs"
    by (simp add: balanced_def)
  have len: "length balanced = length pegs"
    using pos by (rule positions_length)
  from positions_nth [OF pos i]
  have xy: "peg_x (balanced ! i) = peg_x (pegs ! i)" "peg_y (balanced ! i) = peg_y (pegs ! i)"
    by simp_all
  have "spiralGradient cfg (balanced ! i) a levelNumber < 0"
    using a(1) v L by (intro spiralGradient_negative) (simp_all add: xy)
  then have neg: "colorIndex (patterned ! i) < 0"
    using i len by (simp add: patterned_def)
  have i': "i < length patterned"
    using i len by (simp add: patterned_def)
  have nb: "(levelNumber > 6 \<and> rnd (k + 1) < 0.4) = False"
    using single by blast
  have gt: "gradientTypes 5 = spiralGradient"
    by (simp add: gradientTypes_def)
  have g: "fst (applyColorGradient cfg rnd k balanced a levelNumber) = patterned"
    unfolding applyColorGradient_def Let_def spiral nb gt patterned_def by simp
  have "fst (balanceColors cfg rnd k pegs a levelNumber)
      = ensureMinimumColorCounts patterned a levelNumber"
    using L by (simp add: balanceColors_def Let_def balanced_def [symmetric] g)
  moreover from L have "levelNumber \<noteq> 3" by simp
  from ensureMinimumColorCounts_keeps_negative [OF this a i' neg far]
  have "ensureMinimumColorCounts patterned a levelNumber ! i = patterned ! i" .
  ultimately show ?thesis using neg by simp
qed

text \<open>
  The same for \<^verbatim>\<open>generateLevel\<close>, for every array of placed pegs that needs no top-up: the
  gradient stage then reads the draws at positions \<open>drawn\<close> and \<open>drawn + 1\<close>.
\<close>

lemma generateLevel_spiral_negative:
  assumes full: "\<not> toppedUp cfg rnd placed drawn levelNumber"
    and L: "3 < levelNumber"
    and spiral: "jsRem (levelNumber + \<lfloor>rnd drawn * 3\<rfloor>) (min 7 (2 + levelNumber div 2)) = 5"
    and single: "\<not> (levelNumber > 6 \<and> rnd (drawn + 1) < 0.4)"
    and i: "i < length (fst (levelPegs cfg rnd placed drawn levelNumber))"
    and far: "minPerColor levelNumber \<le> int i"
    and v: "atan2 (peg_y (fst (levelPegs cfg rnd placed drawn levelNumber) ! i) - canvasHeight cfg / 2)
          (peg_x (fst (levelPegs cfg rnd placed drawn levelNumber) ! i) - canvasWidth cfg / 2)
        + sqrt ((peg_x (fst (levelPegs cfg rnd placed drawn levelNumber) ! i) - canvasWidth cfg / 2)
              * (peg_x (fst (levelPegs cfg rnd placed drawn levelNumber) ! i) - canvasWidth cfg / 2)
            + (peg_y (fst (levelPegs cfg rnd placed drawn levelNumber) ! i) - canvasHeight cfg / 2)
              * (peg_y (fst (levelPegs cfg rnd placed drawn levelNumber) ! i) - canvasHeight cfg / 2))
          * 0.01 * of_int levelNumber < 0"
  shows "\<exists>pegs. generateLevel cfg rnd placed drawn levelNumber = Some pegs
    \<and> colorIndex (pegs ! i) < 0"
proof -
  have k: "snd (levelPegs cfg rnd placed drawn levelNumber) = drawn"
    using L by (simp add: levelPegs_def generateProceduralLevel_def Let_def)
  have a: "0 < getAvailableColors levelNumber" "getAvailableColors levelNumber \<le> 8"
    using getAvailableColors_bounds [of levelNumber] by simp_all
  from balanceColors_spiral_negative [OF L spiral single a i far v]
  have "colorIndex (fst (balanceColors cfg rnd drawn
      (fst (levelPegs cfg rnd placed drawn levelNumber)) (getAvailableColors levelNumber)
      levelNumber) ! i) < 0" .
  with generateLevel_not_topped [OF full] show ?thesis
    by (simp add: k)
qed

end
